theory Spec2Isabelle
  imports Main "HOL-Library.Word" "HOL-Library.Signed_Division"
begin

section \<open>The downstream query dispatcher (pkg/querier/queryrange/downstreamer.go)\<close>

subsection \<open>Request translation: ParamsToLokiRequest\<close>

text \<open>
  \<open>logql.Params\<close> is an interface; the translator only calls its getters, so a value of
  the interface is the record of what the getters return. \<open>time.Time\<close> is opaque to the
  translator (type variable \<open>'t\<close>), \<open>time.Duration\<close> is an int64 count of nanoseconds,
  the limit is a uint32.
\<close>

datatype QueryRangeType = InstantType | RangeType

datatype Direction = FORWARD | BACKWARD

type_synonym Duration = "64 word"

record 't Params =
  Params_Query :: string
  Params_Limit :: "32 word"
  Params_Start :: 't
  Params_End :: 't
  Params_Step :: Duration
  Params_Interval :: Duration
  Params_Direction :: Direction

text \<open>
  \<open>Duration.Milliseconds\<close> of the Go standard library is \<open>int64(d) / 1e6\<close>; Go's integer
  division truncates towards zero.
\<close>

definition Milliseconds :: "Duration \<Rightarrow> 64 word" where
  "Milliseconds d = word_of_int (sint d sdiv 1000000)"

record 't LokiInstantRequest =
  LokiInstantRequest_Query :: string
  LokiInstantRequest_Limit :: "32 word"
  LokiInstantRequest_TimeTs :: 't
  LokiInstantRequest_Direction :: Direction
  LokiInstantRequest_Path :: string
  LokiInstantRequest_Shards :: "string list"

record 't LokiRequest =
  LokiRequest_Query :: string
  LokiRequest_Limit :: "32 word"
  LokiRequest_Step :: "64 word"
  LokiRequest_Interval :: "64 word"
  LokiRequest_StartTs :: 't
  LokiRequest_EndTs :: 't
  LokiRequest_Direction :: Direction
  LokiRequest_Path :: string
  LokiRequest_Shards :: "string list"

text \<open>The \<open>queryrangebase.Request\<close> interface, as far as this file produces its values.\<close>

datatype 't Request =
  InstantRequest "'t LokiInstantRequest"
  | RangeRequest "'t LokiRequest"

text \<open>
  \<open>logql.GetRangeType\<close> and \<open>Shards.Encode\<close> live in package \<open>logql\<close>, outside this
  file: they are the parameters \<open>GetRangeType\<close> and \<open>Encode\<close> of the translator.
\<close>

definition ParamsToLokiRequest ::
  "('t Params \<Rightarrow> QueryRangeType) \<Rightarrow> ('sh \<Rightarrow> string list) \<Rightarrow> 't Params \<Rightarrow> 'sh \<Rightarrow> 't Request" where
  "ParamsToLokiRequest GetRangeType Encode params shards =
     (if GetRangeType params = InstantType then
        InstantRequest \<lparr>
          LokiInstantRequest_Query = Params_Query params,
          LokiInstantRequest_Limit = Params_Limit params,
          LokiInstantRequest_TimeTs = Params_Start params,
          LokiInstantRequest_Direction = Params_Direction params,
          LokiInstantRequest_Path = ''/loki/api/v1/query'',
          LokiInstantRequest_Shards = Encode shards \<rparr>
      else
        RangeRequest \<lparr>
          LokiRequest_Query = Params_Query params,
          LokiRequest_Limit = Params_Limit params,
          LokiRequest_Step = Milliseconds (Params_Step params),
          LokiRequest_Interval = Milliseconds (Params_Interval params),
          LokiRequest_StartTs = Params_Start params,
          LokiRequest_EndTs = Params_End params,
          LokiRequest_Direction = Params_Direction params,
          LokiRequest_Path = ''/loki/api/v1/query_range'',
          LokiRequest_Shards = Encode shards \<rparr>)"

subsection \<open>The token pool and the dispatcher factory: Downstreamer\<close>

definition DefaultDownstreamConcurrency :: int where
  "DefaultDownstreamConcurrency = 128"

text \<open>
  A buffered channel of \<open>struct{}\<close>: its elements carry nothing, so the buffer is the
  number of elements it holds. A send on a full channel and a receive on an empty one
  block: the operation has no result (\<open>None\<close>).
\<close>

record chan =
  chan_cap :: nat
  chan_len :: nat

definition make_chan :: "int \<Rightarrow> chan" where
  "make_chan p = \<lparr> chan_cap = nat p, chan_len = 0 \<rparr>"

definition chan_send :: "chan \<Rightarrow> chan option" where
  "chan_send c = (if chan_len c < chan_cap c then Some (c\<lparr> chan_len := chan_len c + 1 \<rparr>) else None)"

definition chan_recv :: "chan \<Rightarrow> chan option" where
  "chan_recv c = (if 0 < chan_len c then Some (c\<lparr> chan_len := chan_len c - 1 \<rparr>) else None)"

text \<open>
  \<open>DownstreamHandler\<close>: the limits provider is its one method used here,
  \<open>MaxQueryParallelism(ctx, user)\<close>. \<open>tenant.TenantID\<close> is a function of another
  module, returning the pair (user, err): the parameter \<open>TenantID\<close>.
\<close>

record ('ctx, 'h) DownstreamHandler =
  limits :: "'ctx \<Rightarrow> string \<Rightarrow> int"
  "next" :: 'h

record 'h instance_t =
  parallelism :: int
  locks :: chan
  handler :: 'h

text \<open>The resolution of the bound, lines 64 to 72.\<close>

definition resolve_parallelism ::
  "('ctx \<Rightarrow> string \<times> 'err option) \<Rightarrow> ('ctx, 'h) DownstreamHandler \<Rightarrow> 'ctx \<Rightarrow> int" where
  "resolve_parallelism TenantID h ctx =
     (let p = DefaultDownstreamConcurrency in
      case TenantID ctx of
        (user, None) \<Rightarrow> (let x = limits h ctx user in if x > 0 then x else p)
      | (user, Some err) \<Rightarrow> p)"

text \<open>The loop \<open>for i := 0; i < p; i++ { locks <- struct{}{} }\<close>.\<close>

function fill_locks :: "int \<Rightarrow> int \<Rightarrow> chan \<Rightarrow> chan option" where
  "fill_locks i p c =
     (if i < p then
        (case chan_send c of None \<Rightarrow> None | Some c' \<Rightarrow> fill_locks (i + 1) p c')
      else Some c)"
  by pat_completeness auto
termination
  by (relation "measure (\<lambda>(i, p, c). nat (p - i))") auto

definition Downstreamer ::
  "('ctx \<Rightarrow> string \<times> 'err option) \<Rightarrow> ('ctx, 'h) DownstreamHandler \<Rightarrow> 'ctx \<Rightarrow> 'h instance_t option" where
  "Downstreamer TenantID h ctx =
     (let p = resolve_parallelism TenantID h ctx in
      case fill_locks 0 p (make_chan p) of
        None \<Rightarrow> None
      | Some c \<Rightarrow> Some \<lparr> parallelism = p, locks = c, handler = next h \<rparr>)"

subsection \<open>Response translation: ResponseToResult\<close>

text \<open>
  The wire types (\<open>logproto\<close>, \<open>queryrangebase\<close>) and the evaluation types (\<open>labels\<close>,
  \<open>promql\<close>) are declared outside this file; the records below hold the fields the
  translator reads and writes. A float64 is only copied (type variable \<open>'f\<close>), a log
  stream is copied whole (\<open>'s\<close>), and so are the statistics (\<open>'st\<close>) and what
  \<open>GetHeaders\<close> returns (\<open>'h\<close>).
\<close>

record LabelAdapter =
  LabelAdapter_Name :: string
  LabelAdapter_Value :: string

record Label =
  Label_Name :: string
  Label_Value :: string

text \<open>The conversion \<open>labels.Label(l)\<close> between two structs with the same fields.\<close>

definition Label_conv :: "LabelAdapter \<Rightarrow> Label" where
  "Label_conv l = \<lparr> Label_Name = LabelAdapter_Name l, Label_Value = LabelAdapter_Value l \<rparr>"

record 'f LegacySample =
  Value :: 'f
  TimestampMs :: "64 word"

record 'f SampleStream =
  Labels :: "LabelAdapter list"
  Samples :: "'f LegacySample list"

record 'f Point =
  Point_T :: "64 word"
  Point_V :: 'f

record 'f Sample =
  Sample_Point :: "'f Point"
  Sample_Metric :: "Label list"

record 'f Series =
  Series_Metric :: "Label list"
  Series_Points :: "'f Point list"

text \<open>\<open>parser.Value\<close>, the payload of a result: log streams, a vector or a matrix.\<close>

datatype ('s, 'f) Value_t =
  Streams "'s list"
  | Vector "'f Sample list"
  | Matrix "'f Series list"

record ('s, 'f, 'st, 'h) Result =
  Result_Statistics :: 'st
  Result_Data :: "('s, 'f) Value_t"
  Result_Headers :: 'h

record ('s, 'st, 'h) LokiResponse =
  LokiResponse_ErrorType :: string
  LokiResponse_Error :: string
  LokiResponse_Data_Result :: "'s list"
  LokiResponse_Statistics :: 'st
  LokiResponse_Headers :: 'h

record 'f PrometheusData =
  ResultType :: string
  Result :: "'f SampleStream list"

record ('f, 'h) PrometheusResponse =
  PrometheusResponse_ErrorType :: string
  PrometheusResponse_Error :: string
  PrometheusResponse_Data :: "'f PrometheusData"
  PrometheusResponse_Headers :: 'h

text \<open>
  The field \<open>Response\<close> of a \<open>LokiPromResponse\<close> is a pointer to a
  \<open>PrometheusResponse\<close>: \<open>None\<close> is the nil pointer.
\<close>

record ('f, 'st, 'h) LokiPromResponse =
  Response :: "('f, 'h) PrometheusResponse option"
  LokiPromResponse_Statistics :: 'st

text \<open>
  \<open>queryrangebase.Response\<close> is an interface and the translator switches on the dynamic
  type: the two pointer types it knows, \<open>*LokiResponse\<close> and \<open>*LokiPromResponse\<close>, and
  any other type, of which only the name printed by \<open>%T\<close> matters (for the nil interface
  that name is \<open><nil>\<close>). A value of a pointer type is a pointer to a struct or the nil
  pointer of that type: \<open>Some r\<close> or \<open>None\<close>.
\<close>

datatype ('s, 'f, 'st, 'h) Response_t =
  LokiResponsePtr "('s, 'st, 'h) LokiResponse option"
  | LokiPromResponsePtr "('f, 'st, 'h) LokiPromResponse option"
  | OtherResponse string

text \<open>
  A Go call returns its values, among them an error, or panics. \<open>Ok\<close> is a return with
  a nil error, \<open>Err\<close> a return with the error of that message (the zero Result that
  comes with it is dropped) and \<open>Panic\<close> a runtime panic: the read of a field through a
  nil pointer, or an index out of the range of a slice.
\<close>

datatype panic = NilDereference | IndexOutOfRange

datatype 'a go_result = Ok 'a | Err string | Panic panic

definition ResultTypeVector :: string where
  \<comment> \<open>Modelled from the spec: the constant \<open>loghttp.ResultTypeVector\<close> is declared in
     package \<open>loghttp\<close>; the spec calls the shape "vector".\<close>
  "ResultTypeVector = ''vector''"

text \<open>The inner loop of both converters: \<open>x.Metric = append(x.Metric, labels.Label(l))\<close>.\<close>

fun append_labels :: "Label list \<Rightarrow> LabelAdapter list \<Rightarrow> Label list" where
  "append_labels metric [] = metric"
| "append_labels metric (l # ls) = append_labels (metric @ [Label_conv l]) ls"

fun append_points :: "'f Point list \<Rightarrow> 'f LegacySample list \<Rightarrow> 'f Point list" where
  "append_points points [] = points"
| "append_points points (sample # samples) =
     append_points (points @ [\<lparr> Point_T = TimestampMs sample, Point_V = Value sample \<rparr>]) samples"

fun sampleStreamToMatrix_loop :: "'f Series list \<Rightarrow> 'f SampleStream list \<Rightarrow> 'f Series list" where
  "sampleStreamToMatrix_loop xs [] = xs"
| "sampleStreamToMatrix_loop xs (stream # streams) =
     (let x = \<lparr> Series_Metric = append_labels [] (Labels stream),
                Series_Points = append_points [] (Samples stream) \<rparr>
      in sampleStreamToMatrix_loop (xs @ [x]) streams)"

definition sampleStreamToMatrix :: "'f SampleStream list \<Rightarrow> ('s, 'f) Value_t" where
  "sampleStreamToMatrix streams = Matrix (sampleStreamToMatrix_loop [] streams)"

text \<open>
  \<open>stream.Samples[0]\<close> is an index expression on a slice: on an empty slice Go panics
  (index out of range). \<open>None\<close> is that panic.
\<close>

fun sampleStreamToVector_loop :: "'f Sample list \<Rightarrow> 'f SampleStream list \<Rightarrow> 'f Sample list option" where
  "sampleStreamToVector_loop xs [] = Some xs"
| "sampleStreamToVector_loop xs (stream # streams) =
     (let metric = append_labels [] (Labels stream) in
      case Samples stream of
        [] \<Rightarrow> None
      | s0 # _ \<Rightarrow>
          (let x = \<lparr> Sample_Point = \<lparr> Point_T = TimestampMs s0, Point_V = Value s0 \<rparr>,
                     Sample_Metric = metric \<rparr>
           in sampleStreamToVector_loop (xs @ [x]) streams))"

definition sampleStreamToVector :: "'f SampleStream list \<Rightarrow> ('s, 'f) Value_t option" where
  "sampleStreamToVector streams = map_option Vector (sampleStreamToVector_loop [] streams)"

text \<open>The loop \<open>streams = append(streams, stream)\<close> of the log-stream case.\<close>

fun append_streams :: "'s list \<Rightarrow> 's list \<Rightarrow> 's list" where
  "append_streams streams [] = streams"
| "append_streams streams (stream # rest) = append_streams (streams @ [stream]) rest"

text \<open>
  The switch binds \<open>r\<close> to the pointer and reads \<open>r.Error\<close> (line 215) and
  \<open>r.Response.Error\<close> (line 232) without a nil check: through a nil \<open>r\<close>, and through a
  nil \<open>r.Response\<close>, the read panics.
\<close>

fun ResponseToResult ::
  "('s, 'f, 'st, 'h) Response_t \<Rightarrow> ('s, 'f, 'st, 'h) Result go_result" where
  "ResponseToResult (LokiResponsePtr None) = Panic NilDereference"
| "ResponseToResult (LokiResponsePtr (Some r)) =
     (if LokiResponse_Error r \<noteq> [] then
        Err (LokiResponse_ErrorType r @ '': '' @ LokiResponse_Error r)
      else
        Ok \<lparr> Result_Statistics = LokiResponse_Statistics r,
             Result_Data = Streams (append_streams [] (LokiResponse_Data_Result r)),
             Result_Headers = LokiResponse_Headers r \<rparr>)"
| "ResponseToResult (LokiPromResponsePtr None) = Panic NilDereference"
| "ResponseToResult (LokiPromResponsePtr (Some r)) =
     (case Response r of
        None \<Rightarrow> Panic NilDereference
      | Some p \<Rightarrow>
          if PrometheusResponse_Error p \<noteq> [] then
            Err (PrometheusResponse_ErrorType p @ '': '' @ PrometheusResponse_Error p)
          else if ResultType (PrometheusResponse_Data p) = ResultTypeVector then
            (case sampleStreamToVector (Result (PrometheusResponse_Data p)) of
               None \<Rightarrow> Panic IndexOutOfRange
             | Some v \<Rightarrow>
                 Ok \<lparr> Result_Statistics = LokiPromResponse_Statistics r,
                      Result_Data = v,
                      Result_Headers = PrometheusResponse_Headers p \<rparr>)
          else
            Ok \<lparr> Result_Statistics = LokiPromResponse_Statistics r,
                 Result_Data = sampleStreamToMatrix (Result (PrometheusResponse_Data p)),
                 Result_Headers = PrometheusResponse_Headers p \<rparr>)"
| "ResponseToResult (OtherResponse tname) = Err (''cannot decode ('' @ tname @ '')'')"

subsection \<open>The bounded dispatcher: instance.For\<close>

text \<open>
  \<open>For\<close> starts goroutines that share the token pool \<open>in.locks\<close>, the unbuffered
  channel \<open>ch\<close> and the derived context. It is modelled as a transition system: a state
  holds the program point of every goroutine, an action is one step of one goroutine
  (a \<open>select\<close> that has several ready cases may take any of them), and a schedule is
  the list of actions in the order they happen. The work function \<open>fn\<close> is a function
  that returns the pair (result, error).
\<close>

datatype ctx_error = Canceled | DeadlineExceeded

text \<open>The error returned by \<open>For\<close>: \<open>ctx.Err()\<close> or the \<open>resp.err\<close> of a worker.\<close>

datatype 'e For_error = ContextErr ctx_error | WorkErr 'e

record ('r, 'e) resp =
  resp_i :: nat
  resp_res :: 'r
  resp_err :: "'e option"

text \<open>
  The goroutine of index \<open>i\<close> (lines 132 to 150): not started, started and holding its
  token, inside \<open>fn(queries[i])\<close>, at the \<open>select\<close> with its response, in the deferred
  function that sends the token back, and finished.
\<close>

datatype ('r, 'e) worker =
  Idle
  | Spawned
  | Running
  | Publishing "('r, 'e) resp"
  | Releasing
  | Finished

text \<open>
  The calling goroutine (lines 155 to 167): in the loop with its counter and the
  \<open>results\<close> slice, at a \<open>return\<close> with the two values and the deferred \<open>cancel()\<close> still
  to run, returned to the caller, or stopped by an index out of range at
  \<open>results[resp.i]\<close>.
\<close>

datatype ('r, 'e) collector =
  Collecting nat "'r list"
  | Returning "'r list option" "'e For_error option"
  | Returned "'r list option" "'e For_error option"
  | CollPanic

record ('r, 'e) For_state =
  pool :: chan
  ctx_err :: "ctx_error option"
  sup_i :: nat
  workers :: "('r, 'e) worker list"
  coll :: "('r, 'e) collector"

datatype action =
  ParentDone ctx_error
  | SupDone
  | SupAcquire
  | Start nat
  | FnReturn nat
  | Deliver nat
  | Drop nat
  | Release nat
  | CollDone
  | CollReturn
  | DeferCancel

text \<open>
  \<^item> \<open>ParentDone c\<close>: the context passed by the caller ends with error \<open>c\<close>, and with it
    the derived context.
  \<^item> \<open>SupDone\<close>: the dispatching goroutine takes \<open>case <-ctx.Done(): break\<close>. The
    \<open>break\<close> leaves the \<open>select\<close>, and the \<open>for\<close> statement goes on with \<open>i++\<close>.
  \<^item> \<open>SupAcquire\<close>: it takes \<open>case <-in.locks\<close> and starts the goroutine of index \<open>i\<close>.
  \<^item> \<open>Start i\<close>, \<open>FnReturn i\<close>: goroutine \<open>i\<close> calls \<open>fn(queries[i])\<close>; the call returns.
  \<^item> \<open>Deliver i\<close>: goroutine \<open>i\<close> takes \<open>case ch <- response\<close> and the caller takes
    \<open>case resp := <-ch\<close> (the channel is unbuffered), then handles the response.
  \<^item> \<open>Drop i\<close>: goroutine \<open>i\<close> takes \<open>case <-ctx.Done()\<close>.
  \<^item> \<open>Release i\<close>: the deferred \<open>in.locks <- struct{}{}\<close>.
  \<^item> \<open>CollDone\<close>: the caller takes \<open>case <-ctx.Done(): return nil, ctx.Err()\<close>.
  \<^item> \<open>CollReturn\<close>: the loop is over, \<open>return results, nil\<close>.
  \<^item> \<open>DeferCancel\<close>: the deferred \<open>cancel()\<close>, after which \<open>For\<close> has returned.
\<close>

fun For_step ::
  "'q list \<Rightarrow> ('q \<Rightarrow> 'r \<times> 'e option) \<Rightarrow> action \<Rightarrow> ('r, 'e) For_state \<Rightarrow> ('r, 'e) For_state option" where
  "For_step queries fn (ParentDone c) s =
     (if ctx_err s = None then Some (s\<lparr> ctx_err := Some c \<rparr>) else None)"
| "For_step queries fn SupDone s =
     (if sup_i s < length queries \<and> ctx_err s \<noteq> None
      then Some (s\<lparr> sup_i := sup_i s + 1 \<rparr>) else None)"
| "For_step queries fn SupAcquire s =
     (if sup_i s < length queries then
        (case chan_recv (pool s) of
           None \<Rightarrow> None
         | Some c \<Rightarrow>
             Some (s\<lparr> pool := c, workers := (workers s)[sup_i s := Spawned], sup_i := sup_i s + 1 \<rparr>))
      else None)"
| "For_step queries fn (Start i) s =
     (if i < length (workers s) \<and> workers s ! i = Spawned
      then Some (s\<lparr> workers := (workers s)[i := Running] \<rparr>) else None)"
| "For_step queries fn (FnReturn i) s =
     (if i < length (workers s) \<and> i < length queries \<and> workers s ! i = Running then
        (case fn (queries ! i) of
           (res, err) \<Rightarrow>
             Some (s\<lparr> workers := (workers s)[i := Publishing \<lparr> resp_i = i, resp_res = res, resp_err = err \<rparr>] \<rparr>))
      else None)"
| "For_step queries fn (Deliver i) s =
     (if i < length (workers s) then
        (case (workers s ! i, coll s) of
           (Publishing r, Collecting j results) \<Rightarrow>
             (if j < length queries then
                Some (s\<lparr> workers := (workers s)[i := Releasing],
                         coll := (case resp_err r of
                                    Some e \<Rightarrow> Returning None (Some (WorkErr e))
                                  | None \<Rightarrow>
                                      if resp_i r < length results
                                      then Collecting (j + 1) (results[resp_i r := resp_res r])
                                      else CollPanic) \<rparr>)
              else None)
         | _ \<Rightarrow> None)
      else None)"
| "For_step queries fn (Drop i) s =
     (if i < length (workers s) \<and> ctx_err s \<noteq> None then
        (case workers s ! i of
           Publishing r \<Rightarrow> Some (s\<lparr> workers := (workers s)[i := Releasing] \<rparr>)
         | _ \<Rightarrow> None)
      else None)"
| "For_step queries fn (Release i) s =
     (if i < length (workers s) \<and> workers s ! i = Releasing then
        (case chan_send (pool s) of
           None \<Rightarrow> None
         | Some c \<Rightarrow> Some (s\<lparr> pool := c, workers := (workers s)[i := Finished] \<rparr>))
      else None)"
| "For_step queries fn CollDone s =
     (case (coll s, ctx_err s) of
        (Collecting j results, Some c) \<Rightarrow>
          (if j < length queries then Some (s\<lparr> coll := Returning None (Some (ContextErr c)) \<rparr>)
           else None)
      | _ \<Rightarrow> None)"
| "For_step queries fn CollReturn s =
     (case coll s of
        Collecting j results \<Rightarrow>
          (if j < length queries then None
           else Some (s\<lparr> coll := Returning (Some results) None \<rparr>))
      | _ \<Rightarrow> None)"
| "For_step queries fn DeferCancel s =
     (case coll s of
        Returning rs e \<Rightarrow>
          Some (s\<lparr> coll := Returned rs e,
                   ctx_err := (case ctx_err s of None \<Rightarrow> Some Canceled | Some c \<Rightarrow> Some c) \<rparr>)
      | _ \<Rightarrow> None)"

text \<open>A schedule runs from a state as long as each of its actions can be taken.\<close>

fun For_run ::
  "'q list \<Rightarrow> ('q \<Rightarrow> 'r \<times> 'e option) \<Rightarrow> action list \<Rightarrow> ('r, 'e) For_state \<Rightarrow> ('r, 'e) For_state option" where
  "For_run queries fn [] s = Some s"
| "For_run queries fn (a # sched) s =
     (case For_step queries fn a s of
        None \<Rightarrow> None
      | Some s' \<Rightarrow> For_run queries fn sched s')"

text \<open>
  The state at the call: the pool is the instance's, the derived context is not done,
  no goroutine is started, and \<open>results\<close> is \<open>make([]logqlmodel.Result, len(queries))\<close>,
  every entry the zero Result \<open>zero\<close>.
\<close>

definition For_init :: "'h instance_t \<Rightarrow> 'r \<Rightarrow> 'q list \<Rightarrow> ('r, 'e) For_state" where
  "For_init inst zero queries =
     \<lparr> pool = locks inst,
       ctx_err = None,
       sup_i = 0,
       workers = replicate (length queries) Idle,
       coll = Collecting 0 (replicate (length queries) zero) \<rparr>"

text \<open>What the caller of \<open>For\<close> has received: nothing yet, or the pair (results, error).\<close>

definition For_result :: "('r, 'e) For_state \<Rightarrow> ('r list option \<times> 'e For_error option) option" where
  "For_result s = (case coll s of Returned rs e \<Rightarrow> Some (rs, e) | _ \<Rightarrow> None)"

text \<open>The number of goroutines that are inside the work function.\<close>

definition executing :: "('r, 'e) For_state \<Rightarrow> nat" where
  "executing s = length (filter (\<lambda>w. w = Running) (workers s))"

text \<open>The number of goroutines that hold a token of the pool.\<close>

fun holds_token :: "('r, 'e) worker \<Rightarrow> bool" where
  "holds_token Idle = False"
| "holds_token Finished = False"
| "holds_token _ = True"

definition held :: "('r, 'e) For_state \<Rightarrow> nat" where
  "held s = length (filter holds_token (workers s))"

text \<open>The indices delivered to the caller, in the order of delivery.\<close>

fun delivered :: "action list \<Rightarrow> nat list" where
  "delivered [] = []"
| "delivered (Deliver i # sched) = i # delivered sched"
| "delivered (_ # sched) = delivered sched"

text \<open>
  A measure of the work left in a state: every action makes it smaller, so a schedule
  is never longer than the measure of the first state.
\<close>

fun worker_rank :: "('r, 'e) worker \<Rightarrow> nat" where
  "worker_rank Idle = 0"
| "worker_rank Spawned = 4"
| "worker_rank Running = 3"
| "worker_rank (Publishing r) = 2"
| "worker_rank Releasing = 1"
| "worker_rank Finished = 0"

fun coll_rank :: "nat \<Rightarrow> ('r, 'e) collector \<Rightarrow> nat" where
  "coll_rank n (Collecting j results) = (n - j) + 2"
| "coll_rank n (Returning rs e) = 1"
| "coll_rank n (Returned rs e) = 0"
| "coll_rank n CollPanic = 0"

definition For_measure :: "nat \<Rightarrow> ('r, 'e) For_state \<Rightarrow> nat" where
  "For_measure n s =
     5 * (n - sup_i s) + sum_list (map worker_rank (workers s)) + coll_rank n (coll s)
       + (if ctx_err s = None then 1 else 0)"

section \<open>Properties\<close>

subsection \<open>The loops of the translators and of the factory\<close>

lemma append_labels_eq: "append_labels metric ls = metric @ map Label_conv ls"
  by (induction ls arbitrary: metric) auto

lemma append_points_eq:
  "append_points points samples =
     points @ map (\<lambda>sample. \<lparr> Point_T = TimestampMs sample, Point_V = Value sample \<rparr>) samples"
  by (induction samples arbitrary: points) auto

lemma append_streams_eq: "append_streams streams rest = streams @ rest"
  by (induction rest arbitrary: streams) auto

lemma sampleStreamToMatrix_loop_eq:
  "sampleStreamToMatrix_loop xs streams =
     xs @ map (\<lambda>stream. \<lparr> Series_Metric = map Label_conv (Labels stream),
                           Series_Points = map (\<lambda>sample. \<lparr> Point_T = TimestampMs sample, Point_V = Value sample \<rparr>)
                                             (Samples stream) \<rparr>) streams"
  by (induction streams arbitrary: xs) (auto simp: append_labels_eq append_points_eq)

lemma sampleStreamToVector_loop_Some:
  "\<forall>stream \<in> set streams. Samples stream \<noteq> [] \<Longrightarrow>
   sampleStreamToVector_loop xs streams =
     Some (xs @ map (\<lambda>stream. \<lparr> Sample_Point = \<lparr> Point_T = TimestampMs (hd (Samples stream)),
                                                 Point_V = Value (hd (Samples stream)) \<rparr>,
                                 Sample_Metric = map Label_conv (Labels stream) \<rparr>) streams)"
  by (induction streams arbitrary: xs) (auto simp: append_labels_eq split: list.splits)

lemma sampleStreamToVector_loop_None:
  "\<exists>stream \<in> set streams. Samples stream = [] \<Longrightarrow> sampleStreamToVector_loop xs streams = None"
  by (induction streams arbitrary: xs) (auto simp: Let_def split: list.splits)

lemma fill_locks_eq:
  "i \<le> p \<Longrightarrow> chan_len c + nat (p - i) \<le> chan_cap c \<Longrightarrow>
   fill_locks i p c = Some (c\<lparr> chan_len := chan_len c + nat (p - i) \<rparr>)"
proof (induction i p c rule: fill_locks.induct)
  case (1 i p c)
  show ?case
  proof (cases "i < p")
    case True
    then have send: "chan_send c = Some (c\<lparr> chan_len := chan_len c + 1 \<rparr>)"
      using "1.prems" by (auto simp: chan_send_def)
    have "fill_locks (i + 1) p (c\<lparr> chan_len := chan_len c + 1 \<rparr>) =
            Some (c\<lparr> chan_len := chan_len c + 1 + nat (p - (i + 1)) \<rparr>)"
      using "1.IH" [OF True send] True "1.prems" by simp
    moreover have "chan_len c + 1 + nat (p - (i + 1)) = chan_len c + nat (p - i)"
      using True by linarith
    ultimately show ?thesis
      using True send by (subst fill_locks.simps) simp
  next
    case False
    then show ?thesis using "1.prems" by (subst fill_locks.simps) simp
  qed
qed

lemma resolve_parallelism_pos: "0 < resolve_parallelism TenantID h ctx"
  by (auto simp: resolve_parallelism_def DefaultDownstreamConcurrency_def Let_def split: prod.splits option.splits)

lemma Downstreamer_eq:
  "Downstreamer TenantID h ctx =
     Some \<lparr> parallelism = resolve_parallelism TenantID h ctx,
            locks = \<lparr> chan_cap = nat (resolve_parallelism TenantID h ctx),
                      chan_len = nat (resolve_parallelism TenantID h ctx) \<rparr>,
            handler = next h \<rparr>"
proof -
  let ?p = "resolve_parallelism TenantID h ctx"
  have "fill_locks 0 ?p (make_chan ?p) = Some ((make_chan ?p)\<lparr> chan_len := chan_len (make_chan ?p) + nat (?p - 0) \<rparr>)"
    using resolve_parallelism_pos [of TenantID h ctx]
    by (intro fill_locks_eq) (simp_all add: make_chan_def)
  then show ?thesis
    by (simp add: Downstreamer_def make_chan_def Let_def)
qed

lemma sampleStreamToVector_Some:
  "\<forall>stream \<in> set streams. Samples stream \<noteq> [] \<Longrightarrow>
   sampleStreamToVector streams =
     Some (Vector (map (\<lambda>stream. \<lparr> Sample_Point = \<lparr> Point_T = TimestampMs (hd (Samples stream)),
                                                       Point_V = Value (hd (Samples stream)) \<rparr>,
                                       Sample_Metric = map Label_conv (Labels stream) \<rparr>) streams))"
  by (simp add: sampleStreamToVector_def sampleStreamToVector_loop_Some)

lemma sampleStreamToVector_None:
  "\<exists>stream \<in> set streams. Samples stream = [] \<Longrightarrow> sampleStreamToVector streams = None"
  by (simp add: sampleStreamToVector_def sampleStreamToVector_loop_None)

lemma sampleStreamToMatrix_eq:
  "sampleStreamToMatrix streams =
     Matrix (map (\<lambda>stream. \<lparr> Series_Metric = map Label_conv (Labels stream),
                             Series_Points = map (\<lambda>sample. \<lparr> Point_T = TimestampMs sample, Point_V = Value sample \<rparr>)
                                               (Samples stream) \<rparr>) streams)"
  by (simp add: sampleStreamToMatrix_def sampleStreamToMatrix_loop_eq)

lemma sdiv_million:
  "(k::int) sdiv 1000000 = (if 0 \<le> k then k div 1000000 else - ((- k) div 1000000))"
  by (simp add: signed_divide_int_def sgn_if)

lemma sdiv_million_bounds:
  "(k::int) sdiv 1000000 \<le> \<bar>k\<bar>" "- \<bar>k\<bar> \<le> k sdiv 1000000"
proof -
  have pos: "\<And>a::int. 0 \<le> a \<Longrightarrow> 0 \<le> a div 1000000 \<and> a div 1000000 \<le> a"
  proof -
    fix a :: int assume "0 \<le> a"
    then show "0 \<le> a div 1000000 \<and> a div 1000000 \<le> a"
      using int_div_le_self [of a 1000000] by (cases "a = 0") (simp_all add: pos_imp_zdiv_nonneg_iff)
  qed
  show "k sdiv 1000000 \<le> \<bar>k\<bar>" "- \<bar>k\<bar> \<le> k sdiv 1000000"
    using pos [of k] pos [of "- k"] unfolding sdiv_million by (auto split: if_splits)
qed

lemma sint_Milliseconds: "sint (Milliseconds d) = sint d sdiv 1000000"
proof -
  have b: "- (2 ^ 63) \<le> sint d" "sint d < 2 ^ 63"
    using sint_ge [of d] sint_lt [of d] by simp_all
  have nz: "sint d = - (2 ^ 63) \<Longrightarrow> sint d sdiv 1000000 = - 9223372036854"
    unfolding sdiv_million by simp
  have "- (2 ^ 63) \<le> sint d sdiv 1000000 \<and> sint d sdiv 1000000 < 2 ^ 63"
  proof (cases "sint d = - (2 ^ 63)")
    case True
    then show ?thesis using nz by simp
  next
    case False
    then show ?thesis
      using b sdiv_million_bounds [of "sint d"] by linarith
  qed
  then show ?thesis
    unfolding Milliseconds_def
    by (simp add: signed_take_bit_int_eq_self sint_sbintrunc') 
qed

text \<open>
  A nil pointer of one of the two recognized types, and a \<open>LokiPromResponse\<close> whose
  \<open>Response\<close> is nil, make the translator panic.
\<close>

lemma ResponseToResult_nil:
  "ResponseToResult (LokiResponsePtr None) = Panic NilDereference"
  "ResponseToResult (LokiPromResponsePtr None) = Panic NilDereference"
  "Response pr = None \<Longrightarrow> ResponseToResult (LokiPromResponsePtr (Some pr)) = Panic NilDereference"
  by simp_all

subsection \<open>The dispatcher factory\<close>

text \<open>
  Claim C5. \<open>Downstreamer\<close> returns an instance whose bound is the default 128 unless the
  tenant resolves without error and the limits provider gives a strictly positive value,
  which is then the bound; a resolution failure or a non-positive value gives the default
  and no error. The pool of the instance has the bound as its capacity and is full.
\<close>

theorem Downstreamer_bound:
  "\<exists>inst. Downstreamer TenantID h ctx = Some inst
     \<and> parallelism inst =
         (if snd (TenantID ctx) = None \<and> 0 < limits h ctx (fst (TenantID ctx))
          then limits h ctx (fst (TenantID ctx)) else 128)
     \<and> 0 < parallelism inst
     \<and> chan_cap (locks inst) = nat (parallelism inst)
     \<and> chan_len (locks inst) = chan_cap (locks inst)"
proof -
  have "resolve_parallelism TenantID h ctx =
          (if snd (TenantID ctx) = None \<and> 0 < limits h ctx (fst (TenantID ctx))
           then limits h ctx (fst (TenantID ctx)) else 128)"
    by (cases "TenantID ctx")
       (auto simp: resolve_parallelism_def DefaultDownstreamConcurrency_def Let_def split: option.splits)
  then show ?thesis
    using resolve_parallelism_pos [of TenantID h ctx]
    unfolding Downstreamer_eq by simp
qed

theorem Downstreamer_bound_witness:
  "(\<exists>inst. Downstreamer (\<lambda>ctx::unit. (''tenant-a'', None :: unit option))
             \<lparr> limits = (\<lambda>ctx user. if user = ''tenant-a'' then 32 else 0), next = () \<rparr> () = Some inst
      \<and> parallelism inst = 32 \<and> chan_cap (locks inst) = 32 \<and> chan_len (locks inst) = 32)
   \<and> (\<exists>inst. Downstreamer (\<lambda>ctx::unit. (''tenant-a'', None :: unit option))
             \<lparr> limits = (\<lambda>ctx user. - 1), next = () \<rparr> () = Some inst
      \<and> parallelism inst = 128 \<and> chan_cap (locks inst) = 128 \<and> chan_len (locks inst) = 128)
   \<and> (\<exists>inst. Downstreamer (\<lambda>ctx::unit. ('''', Some ()))
             \<lparr> limits = (\<lambda>ctx user. 32), next = () \<rparr> () = Some inst
      \<and> parallelism inst = 128 \<and> chan_cap (locks inst) = 128 \<and> chan_len (locks inst) = 128)"
  using Downstreamer_bound [of "\<lambda>ctx::unit. (''tenant-a'', None :: unit option)"
          "\<lparr> limits = (\<lambda>ctx user. if user = ''tenant-a'' then 32 else 0), next = () \<rparr>" "()"]
        Downstreamer_bound [of "\<lambda>ctx::unit. (''tenant-a'', None :: unit option)"
          "\<lparr> limits = (\<lambda>ctx user. - 1), next = () \<rparr>" "()"]
        Downstreamer_bound [of "\<lambda>ctx::unit. ('''', Some ())"
          "\<lparr> limits = (\<lambda>ctx user. 32), next = () \<rparr>" "()"]
  by auto

subsection \<open>Request translation\<close>

text \<open>
  Claim C8. \<open>ParamsToLokiRequest\<close> produces the instant request, carrying the single
  timestamp, exactly when the parameters describe an instant evaluation, and the range
  request otherwise; the fields of the range request are the start, the end, the step and
  the interval in milliseconds (truncated towards zero, without wrap-around), the
  direction, the limit and the encoding of the shards.
\<close>

theorem ParamsToLokiRequest_variants:
  "((\<exists>r. ParamsToLokiRequest GetRangeType Encode params shards = InstantRequest r)
      \<longleftrightarrow> GetRangeType params = InstantType)
   \<and> (GetRangeType params = InstantType \<longrightarrow>
        (\<exists>r. ParamsToLokiRequest GetRangeType Encode params shards = InstantRequest r
           \<and> LokiInstantRequest_TimeTs r = Params_Start params
           \<and> LokiInstantRequest_Query r = Params_Query params
           \<and> LokiInstantRequest_Limit r = Params_Limit params
           \<and> LokiInstantRequest_Direction r = Params_Direction params
           \<and> LokiInstantRequest_Path r = ''/loki/api/v1/query''
           \<and> LokiInstantRequest_Shards r = Encode shards))
   \<and> (GetRangeType params \<noteq> InstantType \<longrightarrow>
        (\<exists>r. ParamsToLokiRequest GetRangeType Encode params shards = RangeRequest r
           \<and> LokiRequest_StartTs r = Params_Start params
           \<and> LokiRequest_EndTs r = Params_End params
           \<and> sint (LokiRequest_Step r) = sint (Params_Step params) sdiv 1000000
           \<and> sint (LokiRequest_Interval r) = sint (Params_Interval params) sdiv 1000000
           \<and> LokiRequest_Direction r = Params_Direction params
           \<and> LokiRequest_Limit r = Params_Limit params
           \<and> LokiRequest_Query r = Params_Query params
           \<and> LokiRequest_Path r = ''/loki/api/v1/query_range''
           \<and> LokiRequest_Shards r = Encode shards))"
  by (simp add: ParamsToLokiRequest_def sint_Milliseconds)

theorem ParamsToLokiRequest_variants_witness:
  "(\<exists>r. ParamsToLokiRequest
          (\<lambda>q. if Params_Start q = Params_End q \<and> Params_Step q = 0 then InstantType else RangeType)
          (map (\<lambda>n :: nat. if n = 0 then ''0_of_2'' else ''1_of_2''))
          \<lparr> Params_Query = ''rate(x[1m])'', Params_Limit = 100, Params_Start = (1000 :: nat),
            Params_End = 2000, Params_Step = 1500000000, Params_Interval = 2999999,
            Params_Direction = BACKWARD \<rparr> [0, 1]
        = RangeRequest r
      \<and> LokiRequest_StartTs r = 1000 \<and> LokiRequest_EndTs r = 2000
      \<and> sint (LokiRequest_Step r) = 1500 \<and> sint (LokiRequest_Interval r) = 2
      \<and> LokiRequest_Direction r = BACKWARD \<and> LokiRequest_Limit r = 100
      \<and> LokiRequest_Shards r = [''0_of_2'', ''1_of_2''])
   \<and> (\<exists>r. ParamsToLokiRequest
          (\<lambda>q. if Params_Start q = Params_End q \<and> Params_Step q = 0 then InstantType else RangeType)
          (map (\<lambda>n :: nat. if n = 0 then ''0_of_2'' else ''1_of_2''))
          \<lparr> Params_Query = ''rate(x[1m])'', Params_Limit = 100, Params_Start = (1000 :: nat),
            Params_End = 1000, Params_Step = 0, Params_Interval = 0,
            Params_Direction = FORWARD \<rparr> [0, 1]
        = InstantRequest r
      \<and> LokiInstantRequest_TimeTs r = 1000)"
  using ParamsToLokiRequest_variants
    [of "\<lambda>q. if Params_Start q = Params_End q \<and> Params_Step q = 0 then InstantType else RangeType"
        "map (\<lambda>n :: nat. if n = 0 then ''0_of_2'' else ''1_of_2'')"
        "\<lparr> Params_Query = ''rate(x[1m])'', Params_Limit = 100, Params_Start = (1000 :: nat),
            Params_End = 2000, Params_Step = 1500000000, Params_Interval = 2999999,
            Params_Direction = BACKWARD \<rparr>" "[0, 1]"]
    ParamsToLokiRequest_variants
    [of "\<lambda>q. if Params_Start q = Params_End q \<and> Params_Step q = 0 then InstantType else RangeType"
        "map (\<lambda>n :: nat. if n = 0 then ''0_of_2'' else ''1_of_2'')"
        "\<lparr> Params_Query = ''rate(x[1m])'', Params_Limit = 100, Params_Start = (1000 :: nat),
            Params_End = 1000, Params_Step = 0, Params_Interval = 0,
            Params_Direction = FORWARD \<rparr>" "[0, 1]"]
  by (auto simp: signed_divide_int_def)

subsection \<open>Response translation\<close>

text \<open>
  Claim C6, as the code has it. \<open>ResponseToResult\<close> returns an error exactly when the
  response is of an unrecognized type, or is a non-nil pointer of a recognized type (for
  a sample-stream response, with a non-nil \<open>Response\<close>) that carries a non-empty error
  message: the message of the error is the error type, a colon and a space, and the
  error message for the two recognized types, and "cannot decode" with the name of the
  type for any other. It returns a Result exactly when the response is a non-nil
  log-stream response without error message, or a non-nil sample-stream response with a
  non-nil \<open>Response\<close> and without error message that is not vector-shaped or has a
  sample in each of its streams.
\<close>

theorem ResponseToResult_errors:
  "((\<exists>msg. ResponseToResult (resp :: ('s, 'f, 'st, 'h) Response_t) = Err msg) \<longleftrightarrow>
      (case resp of
         LokiResponsePtr None \<Rightarrow> False
       | LokiResponsePtr (Some r) \<Rightarrow> LokiResponse_Error r \<noteq> []
       | LokiPromResponsePtr None \<Rightarrow> False
       | LokiPromResponsePtr (Some r) \<Rightarrow>
           (case Response r of None \<Rightarrow> False | Some p \<Rightarrow> PrometheusResponse_Error p \<noteq> [])
       | OtherResponse tname \<Rightarrow> True))
   \<and> ((\<exists>res. ResponseToResult resp = Ok res) \<longleftrightarrow>
      (case resp of
         LokiResponsePtr None \<Rightarrow> False
       | LokiResponsePtr (Some r) \<Rightarrow> LokiResponse_Error r = []
       | LokiPromResponsePtr None \<Rightarrow> False
       | LokiPromResponsePtr (Some r) \<Rightarrow>
           (case Response r of
              None \<Rightarrow> False
            | Some p \<Rightarrow> PrometheusResponse_Error p = []
                \<and> (ResultType (PrometheusResponse_Data p) = ''vector'' \<longrightarrow>
                     (\<forall>stream \<in> set (Result (PrometheusResponse_Data p)). Samples stream \<noteq> [])))
       | OtherResponse tname \<Rightarrow> False))
   \<and> (LokiResponse_Error lr \<noteq> [] \<longrightarrow>
        ResponseToResult (LokiResponsePtr (Some lr) :: ('s, 'f, 'st, 'h) Response_t)
          = Err (LokiResponse_ErrorType lr @ '': '' @ LokiResponse_Error lr))
   \<and> (Response pr = Some p \<and> PrometheusResponse_Error p \<noteq> [] \<longrightarrow>
        ResponseToResult (LokiPromResponsePtr (Some pr) :: ('s, 'f, 'st, 'h) Response_t)
          = Err (PrometheusResponse_ErrorType p @ '': '' @ PrometheusResponse_Error p))
   \<and> ResponseToResult (OtherResponse tname :: ('s, 'f, 'st, 'h) Response_t)
        = Err (''cannot decode ('' @ tname @ '')'')"
proof -
  have v: "(sampleStreamToVector streams :: ('s, 'f) Value_t option) \<noteq> None
             \<longleftrightarrow> (\<forall>stream \<in> set streams. Samples stream \<noteq> [])" for streams :: "'f SampleStream list"
  proof (cases "\<forall>stream \<in> set streams. Samples stream \<noteq> []")
    case True
    then show ?thesis
      using sampleStreamToVector_Some [OF True, where ?'b = 's] by simp
  next
    case False
    then have "\<exists>stream \<in> set streams. Samples stream = []" by simp
    from sampleStreamToVector_None [OF this, where ?'b = 's] False show ?thesis by simp
  qed
  have 1: "(\<exists>msg. ResponseToResult resp = Err msg) \<longleftrightarrow>
      (case resp of
         LokiResponsePtr None \<Rightarrow> False
       | LokiResponsePtr (Some r) \<Rightarrow> LokiResponse_Error r \<noteq> []
       | LokiPromResponsePtr None \<Rightarrow> False
       | LokiPromResponsePtr (Some r) \<Rightarrow>
           (case Response r of None \<Rightarrow> False | Some p \<Rightarrow> PrometheusResponse_Error p \<noteq> [])
       | OtherResponse tname \<Rightarrow> True)"
    by (cases resp) (auto split: option.splits)
  have 2: "(\<exists>res. ResponseToResult resp = Ok res) \<longleftrightarrow>
      (case resp of
         LokiResponsePtr None \<Rightarrow> False
       | LokiResponsePtr (Some r) \<Rightarrow> LokiResponse_Error r = []
       | LokiPromResponsePtr None \<Rightarrow> False
       | LokiPromResponsePtr (Some r) \<Rightarrow>
           (case Response r of
              None \<Rightarrow> False
            | Some p \<Rightarrow> PrometheusResponse_Error p = []
                \<and> (ResultType (PrometheusResponse_Data p) = ''vector'' \<longrightarrow>
                     (\<forall>stream \<in> set (Result (PrometheusResponse_Data p)). Samples stream \<noteq> [])))
       | OtherResponse tname \<Rightarrow> False)"
  proof (cases resp)
    case (LokiResponsePtr x)
    then show ?thesis by (cases x) auto
  next
    case (LokiPromResponsePtr x)
    show ?thesis
    proof (cases x)
      case None
      then show ?thesis using LokiPromResponsePtr by simp
    next
      case (Some r)
      show ?thesis
      proof (cases "Response r")
        case None
        then show ?thesis using LokiPromResponsePtr Some by simp
      next
        case (Some q)
        then show ?thesis
          using LokiPromResponsePtr \<open>x = Some r\<close>
            v [of "Result (PrometheusResponse_Data q)"]
          by (auto simp: ResultTypeVector_def split: option.splits)
      qed
    qed
  next
    case (OtherResponse t)
    then show ?thesis by simp
  qed
  show ?thesis
    using 1 2 by simp
qed

theorem ResponseToResult_errors_witness:
  "ResponseToResult (LokiResponsePtr (Some (\<lparr> LokiResponse_ErrorType = ''bad_data'', LokiResponse_Error = ''parse error'',
          LokiResponse_Data_Result = [], LokiResponse_Statistics = (),
          LokiResponse_Headers = () \<rparr>)) :: (unit, int, unit, unit) Response_t)
     = Err ''bad_data: parse error''
   \<and> ResponseToResult (LokiPromResponsePtr (Some (\<lparr> Response = Some (\<lparr> PrometheusResponse_ErrorType = ''timeout'', PrometheusResponse_Error = ''context deadline exceeded'',
          PrometheusResponse_Data = \<lparr> ResultType = ''matrix'',
            Result = [\<lparr> Labels = [],
                Samples = [\<lparr> Value = 7, TimestampMs = 1000 \<rparr>] \<rparr>] \<rparr>,
          PrometheusResponse_Headers = () \<rparr>), LokiPromResponse_Statistics = () \<rparr>)) :: (unit, int, unit, unit) Response_t)
     = Err ''timeout: context deadline exceeded''
   \<and> ResponseToResult (OtherResponse ''*queryrange.LokiSeriesResponse'' :: (unit, int, unit, unit) Response_t)
     = Err ''cannot decode (*queryrange.LokiSeriesResponse)''
   \<and> (\<exists>res. ResponseToResult (LokiPromResponsePtr (Some (\<lparr> Response = Some (\<lparr> PrometheusResponse_ErrorType = [], PrometheusResponse_Error = [],
          PrometheusResponse_Data = \<lparr> ResultType = ''vector'',
            Result = [\<lparr> Labels = [],
                Samples = [\<lparr> Value = 7, TimestampMs = 1000 \<rparr>] \<rparr>] \<rparr>,
          PrometheusResponse_Headers = () \<rparr>), LokiPromResponse_Statistics = () \<rparr>)) :: (unit, int, unit, unit) Response_t) = Ok res)
   \<and> \<not> (\<exists>res. ResponseToResult (LokiPromResponsePtr (Some (\<lparr> Response = None, LokiPromResponse_Statistics = () \<rparr>)) :: (unit, int, unit, unit) Response_t) = Ok res)
   \<and> \<not> (\<exists>msg. ResponseToResult (LokiPromResponsePtr (Some (\<lparr> Response = None, LokiPromResponse_Statistics = () \<rparr>)) :: (unit, int, unit, unit) Response_t) = Err msg)
   \<and> \<not> (\<exists>res. ResponseToResult (LokiResponsePtr None :: (unit, int, unit, unit) Response_t) = Ok res)"
  using ResponseToResult_errors
      [of "OtherResponse ''*queryrange.LokiSeriesResponse'' :: (unit, int, unit, unit) Response_t"
          "\<lparr> LokiResponse_ErrorType = ''bad_data'', LokiResponse_Error = ''parse error'',
          LokiResponse_Data_Result = [], LokiResponse_Statistics = (),
          LokiResponse_Headers = () \<rparr>"
          "\<lparr> Response = Some (\<lparr> PrometheusResponse_ErrorType = ''timeout'', PrometheusResponse_Error = ''context deadline exceeded'',
          PrometheusResponse_Data = \<lparr> ResultType = ''matrix'',
            Result = [\<lparr> Labels = [],
                Samples = [\<lparr> Value = 7, TimestampMs = 1000 \<rparr>] \<rparr>] \<rparr>,
          PrometheusResponse_Headers = () \<rparr>), LokiPromResponse_Statistics = () \<rparr>"
          "\<lparr> PrometheusResponse_ErrorType = ''timeout'', PrometheusResponse_Error = ''context deadline exceeded'',
          PrometheusResponse_Data = \<lparr> ResultType = ''matrix'',
            Result = [\<lparr> Labels = [],
                Samples = [\<lparr> Value = 7, TimestampMs = 1000 \<rparr>] \<rparr>] \<rparr>,
          PrometheusResponse_Headers = () \<rparr>"
          "''*queryrange.LokiSeriesResponse''"]
    ResponseToResult_errors
      [of "LokiPromResponsePtr (Some (\<lparr> Response = Some (\<lparr> PrometheusResponse_ErrorType = [], PrometheusResponse_Error = [],
          PrometheusResponse_Data = \<lparr> ResultType = ''vector'',
            Result = [\<lparr> Labels = [],
                Samples = [\<lparr> Value = 7, TimestampMs = 1000 \<rparr>] \<rparr>] \<rparr>,
          PrometheusResponse_Headers = () \<rparr>), LokiPromResponse_Statistics = () \<rparr>)) :: (unit, int, unit, unit) Response_t"]
    ResponseToResult_errors
      [of "LokiPromResponsePtr (Some (\<lparr> Response = None, LokiPromResponse_Statistics = () \<rparr>)) :: (unit, int, unit, unit) Response_t"]
    ResponseToResult_errors
      [of "LokiResponsePtr None :: (unit, int, unit, unit) Response_t"]
  by simp

text \<open>
  The claim as stated, "otherwise it returns a successful Result", fails on a
  vector-shaped response without error message that has a stream without samples: the
  call panics.
\<close>

theorem ResponseToResult_errors_counterexample:
  "ResponseToResult
     (LokiPromResponsePtr (Some
      (\<lparr> Response = Some \<lparr> PrometheusResponse_ErrorType = [], PrometheusResponse_Error = [],
          PrometheusResponse_Data = \<lparr> ResultType = ''vector'',
            Result = [\<lparr> Labels = [],
                Samples = [] \<rparr>] \<rparr>,
          PrometheusResponse_Headers = () \<rparr>,
        LokiPromResponse_Statistics = () \<rparr>)) :: (unit, int, unit, unit) Response_t) = Panic IndexOutOfRange"
  by (simp add: ResultTypeVector_def sampleStreamToVector_def)

text \<open>
  Claim C7, as the code has it. For a non-nil sample-stream response with a non-nil
  \<open>Response\<close> and without error message: when the declared type is "vector" and every
  stream has a sample, the Result holds a vector with one entry per stream, in the order
  of the streams, each with the labels of the stream and its first sample; for any other
  declared type it holds a matrix with one series per stream, each with the labels and
  all the points of the stream, in order.
\<close>

theorem ResponseToResult_sample_streams:
  "Response pr = Some p \<Longrightarrow> PrometheusResponse_Error p = [] \<Longrightarrow>
   (ResultType (PrometheusResponse_Data p) = ''vector''
      \<and> (\<forall>stream \<in> set (Result (PrometheusResponse_Data p)). Samples stream \<noteq> [])
    \<longrightarrow> ResponseToResult (LokiPromResponsePtr (Some pr) :: ('s, 'f, 'st, 'h) Response_t) =
          Ok \<lparr> Result_Statistics = LokiPromResponse_Statistics pr,
               Result_Data = Vector (map (\<lambda>stream.
                                \<lparr> Sample_Point = \<lparr> Point_T = TimestampMs (hd (Samples stream)),
                                                   Point_V = Value (hd (Samples stream)) \<rparr>,
                                  Sample_Metric = map Label_conv (Labels stream) \<rparr>)
                              (Result (PrometheusResponse_Data p))),
               Result_Headers = PrometheusResponse_Headers p \<rparr>)
   \<and> (ResultType (PrometheusResponse_Data p) \<noteq> ''vector''
    \<longrightarrow> ResponseToResult (LokiPromResponsePtr (Some pr) :: ('s, 'f, 'st, 'h) Response_t) =
          Ok \<lparr> Result_Statistics = LokiPromResponse_Statistics pr,
               Result_Data = Matrix (map (\<lambda>stream.
                                \<lparr> Series_Metric = map Label_conv (Labels stream),
                                  Series_Points = map (\<lambda>sample. \<lparr> Point_T = TimestampMs sample,
                                                                   Point_V = Value sample \<rparr>)
                                                    (Samples stream) \<rparr>)
                              (Result (PrometheusResponse_Data p))),
               Result_Headers = PrometheusResponse_Headers p \<rparr>)"
  by (simp add: ResultTypeVector_def sampleStreamToVector_Some sampleStreamToMatrix_eq)

theorem ResponseToResult_sample_streams_witness:
  "ResponseToResult (LokiPromResponsePtr (Some (\<lparr> Response = Some (\<lparr> PrometheusResponse_ErrorType = [], PrometheusResponse_Error = [],
          PrometheusResponse_Data = \<lparr> ResultType = ''vector'',
            Result = [\<lparr> Labels = [\<lparr> LabelAdapter_Name = ''job'', LabelAdapter_Value = ''a'' \<rparr>],
                Samples = [\<lparr> Value = 1, TimestampMs = 1000 \<rparr>] \<rparr>,
              \<lparr> Labels = [\<lparr> LabelAdapter_Name = ''job'', LabelAdapter_Value = ''b'' \<rparr>],
                Samples = [\<lparr> Value = 2, TimestampMs = 1000 \<rparr>] \<rparr>,
              \<lparr> Labels = [\<lparr> LabelAdapter_Name = ''job'', LabelAdapter_Value = ''c'' \<rparr>],
                Samples = [\<lparr> Value = 3, TimestampMs = 1000 \<rparr>] \<rparr>] \<rparr>,
          PrometheusResponse_Headers = () \<rparr>), LokiPromResponse_Statistics = () \<rparr>)) :: (unit, int, unit, unit) Response_t)
   = Ok \<lparr> Result_Statistics = (),
          Result_Data = Vector
            [\<lparr> Sample_Point = \<lparr> Point_T = 1000, Point_V = 1 \<rparr>,
               Sample_Metric = [\<lparr> Label_Name = ''job'', Label_Value = ''a'' \<rparr>] \<rparr>,
             \<lparr> Sample_Point = \<lparr> Point_T = 1000, Point_V = 2 \<rparr>,
               Sample_Metric = [\<lparr> Label_Name = ''job'', Label_Value = ''b'' \<rparr>] \<rparr>,
             \<lparr> Sample_Point = \<lparr> Point_T = 1000, Point_V = 3 \<rparr>,
               Sample_Metric = [\<lparr> Label_Name = ''job'', Label_Value = ''c'' \<rparr>] \<rparr>],
          Result_Headers = () \<rparr>
   \<and> ResponseToResult (LokiPromResponsePtr (Some (\<lparr> Response = Some (\<lparr> PrometheusResponse_ErrorType = [], PrometheusResponse_Error = [],
          PrometheusResponse_Data = \<lparr> ResultType = ''matrix'',
            Result = [\<lparr> Labels = [\<lparr> LabelAdapter_Name = ''job'', LabelAdapter_Value = ''a'' \<rparr>],
                Samples = [\<lparr> Value = 1, TimestampMs = 1000 \<rparr>,
                           \<lparr> Value = 4, TimestampMs = 2000 \<rparr>] \<rparr>,
              \<lparr> Labels = [\<lparr> LabelAdapter_Name = ''job'', LabelAdapter_Value = ''b'' \<rparr>],
                Samples = [] \<rparr>] \<rparr>,
          PrometheusResponse_Headers = () \<rparr>), LokiPromResponse_Statistics = () \<rparr>)) :: (unit, int, unit, unit) Response_t)
   = Ok \<lparr> Result_Statistics = (),
          Result_Data = Matrix
            [\<lparr> Series_Metric = [\<lparr> Label_Name = ''job'', Label_Value = ''a'' \<rparr>],
               Series_Points = [\<lparr> Point_T = 1000, Point_V = 1 \<rparr>, \<lparr> Point_T = 2000, Point_V = 4 \<rparr>] \<rparr>,
             \<lparr> Series_Metric = [\<lparr> Label_Name = ''job'', Label_Value = ''b'' \<rparr>],
               Series_Points = [] \<rparr>],
          Result_Headers = () \<rparr>"
  using ResponseToResult_sample_streams
      [of "\<lparr> Response = Some (\<lparr> PrometheusResponse_ErrorType = [], PrometheusResponse_Error = [],
          PrometheusResponse_Data = \<lparr> ResultType = ''vector'',
            Result = [\<lparr> Labels = [\<lparr> LabelAdapter_Name = ''job'', LabelAdapter_Value = ''a'' \<rparr>],
                Samples = [\<lparr> Value = 1, TimestampMs = 1000 \<rparr>] \<rparr>,
              \<lparr> Labels = [\<lparr> LabelAdapter_Name = ''job'', LabelAdapter_Value = ''b'' \<rparr>],
                Samples = [\<lparr> Value = 2, TimestampMs = 1000 \<rparr>] \<rparr>,
              \<lparr> Labels = [\<lparr> LabelAdapter_Name = ''job'', LabelAdapter_Value = ''c'' \<rparr>],
                Samples = [\<lparr> Value = 3, TimestampMs = 1000 \<rparr>] \<rparr>] \<rparr>,
          PrometheusResponse_Headers = () \<rparr>), LokiPromResponse_Statistics = () \<rparr>"
          "\<lparr> PrometheusResponse_ErrorType = [], PrometheusResponse_Error = [],
          PrometheusResponse_Data = \<lparr> ResultType = ''vector'',
            Result = [\<lparr> Labels = [\<lparr> LabelAdapter_Name = ''job'', LabelAdapter_Value = ''a'' \<rparr>],
                Samples = [\<lparr> Value = 1, TimestampMs = 1000 \<rparr>] \<rparr>,
              \<lparr> Labels = [\<lparr> LabelAdapter_Name = ''job'', LabelAdapter_Value = ''b'' \<rparr>],
                Samples = [\<lparr> Value = 2, TimestampMs = 1000 \<rparr>] \<rparr>,
              \<lparr> Labels = [\<lparr> LabelAdapter_Name = ''job'', LabelAdapter_Value = ''c'' \<rparr>],
                Samples = [\<lparr> Value = 3, TimestampMs = 1000 \<rparr>] \<rparr>] \<rparr>,
          PrometheusResponse_Headers = () \<rparr> :: (int, unit) PrometheusResponse", where ?'s = unit]
    ResponseToResult_sample_streams
      [of "\<lparr> Response = Some (\<lparr> PrometheusResponse_ErrorType = [], PrometheusResponse_Error = [],
          PrometheusResponse_Data = \<lparr> ResultType = ''matrix'',
            Result = [\<lparr> Labels = [\<lparr> LabelAdapter_Name = ''job'', LabelAdapter_Value = ''a'' \<rparr>],
                Samples = [\<lparr> Value = 1, TimestampMs = 1000 \<rparr>,
                           \<lparr> Value = 4, TimestampMs = 2000 \<rparr>] \<rparr>,
              \<lparr> Labels = [\<lparr> LabelAdapter_Name = ''job'', LabelAdapter_Value = ''b'' \<rparr>],
                Samples = [] \<rparr>] \<rparr>,
          PrometheusResponse_Headers = () \<rparr>), LokiPromResponse_Statistics = () \<rparr>"
          "\<lparr> PrometheusResponse_ErrorType = [], PrometheusResponse_Error = [],
          PrometheusResponse_Data = \<lparr> ResultType = ''matrix'',
            Result = [\<lparr> Labels = [\<lparr> LabelAdapter_Name = ''job'', LabelAdapter_Value = ''a'' \<rparr>],
                Samples = [\<lparr> Value = 1, TimestampMs = 1000 \<rparr>,
                           \<lparr> Value = 4, TimestampMs = 2000 \<rparr>] \<rparr>,
              \<lparr> Labels = [\<lparr> LabelAdapter_Name = ''job'', LabelAdapter_Value = ''b'' \<rparr>],
                Samples = [] \<rparr>] \<rparr>,
          PrometheusResponse_Headers = () \<rparr> :: (int, unit) PrometheusResponse", where ?'s = unit]
  by (simp add: Label_conv_def)

text \<open>
  Without the condition on the samples the vector case fails: the second stream below has
  no sample, and no vector is returned.
\<close>

theorem ResponseToResult_sample_streams_counterexample:
  "ResponseToResult
     (LokiPromResponsePtr (Some
      (\<lparr> Response = Some \<lparr> PrometheusResponse_ErrorType = [], PrometheusResponse_Error = [],
          PrometheusResponse_Data = \<lparr> ResultType = ''vector'',
            Result = [\<lparr> Labels = [\<lparr> LabelAdapter_Name = ''job'', LabelAdapter_Value = ''a'' \<rparr>],
                Samples = [\<lparr> Value = 1, TimestampMs = 1000 \<rparr>] \<rparr>,
              \<lparr> Labels = [\<lparr> LabelAdapter_Name = ''job'', LabelAdapter_Value = ''b'' \<rparr>],
                Samples = [] \<rparr>] \<rparr>,
          PrometheusResponse_Headers = () \<rparr>,
        LokiPromResponse_Statistics = () \<rparr>)) :: (unit, int, unit, unit) Response_t) = Panic IndexOutOfRange"
  by (simp add: ResultTypeVector_def sampleStreamToVector_def Label_conv_def)

text \<open>
  Claim C10, as the code has it. For a non-nil sample-stream response with a non-nil
  \<open>Response\<close>, without error message and declared vector-shaped, \<open>ResponseToResult\<close>
  reads the first sample of every stream unchecked: it panics with an index out of range
  exactly when some stream has no sample, returns a Result exactly when every stream has
  one, and never returns an error.
\<close>

theorem ResponseToResult_vector_panic:
  "Response pr = Some p \<Longrightarrow> PrometheusResponse_Error p = [] \<Longrightarrow>
   ResultType (PrometheusResponse_Data p) = ''vector'' \<Longrightarrow>
   (ResponseToResult (LokiPromResponsePtr (Some pr) :: ('s, 'f, 'st, 'h) Response_t) = Panic IndexOutOfRange
      \<longleftrightarrow> (\<exists>stream \<in> set (Result (PrometheusResponse_Data p)). Samples stream = []))
   \<and> ((\<forall>stream \<in> set (Result (PrometheusResponse_Data p)). Samples stream \<noteq> [])
      \<longleftrightarrow> (\<exists>res. ResponseToResult (LokiPromResponsePtr (Some pr) :: ('s, 'f, 'st, 'h) Response_t) = Ok res))
   \<and> (\<forall>msg. ResponseToResult (LokiPromResponsePtr (Some pr) :: ('s, 'f, 'st, 'h) Response_t) \<noteq> Err msg)"
proof -
  assume a: "Response pr = Some p" "PrometheusResponse_Error p = []"
    "ResultType (PrometheusResponse_Data p) = ''vector''"
  let ?streams = "Result (PrometheusResponse_Data p)"
  show ?thesis
  proof (cases "\<exists>stream \<in> set ?streams. Samples stream = []")
    case True
    then show ?thesis
      using a sampleStreamToVector_None [OF True, where ?'b = 's]
      by (auto simp: ResultTypeVector_def)
  next
    case False
    then have "\<forall>stream \<in> set ?streams. Samples stream \<noteq> []" by simp
    from sampleStreamToVector_Some [OF this, where ?'b = 's] False a show ?thesis
      by (auto simp: ResultTypeVector_def)
  qed
qed

theorem ResponseToResult_vector_panic_witness:
  "ResponseToResult (LokiPromResponsePtr (Some (\<lparr> Response = Some (\<lparr> PrometheusResponse_ErrorType = [], PrometheusResponse_Error = [],
          PrometheusResponse_Data = \<lparr> ResultType = ''vector'',
            Result = [\<lparr> Labels = [],
                Samples = [\<lparr> Value = 5, TimestampMs = 42 \<rparr>] \<rparr>,
              \<lparr> Labels = [],
                Samples = [] \<rparr>,
              \<lparr> Labels = [],
                Samples = [\<lparr> Value = 6, TimestampMs = 42 \<rparr>] \<rparr>] \<rparr>,
          PrometheusResponse_Headers = () \<rparr>), LokiPromResponse_Statistics = () \<rparr>)) :: (unit, int, unit, unit) Response_t) = Panic IndexOutOfRange
   \<and> (\<exists>res. ResponseToResult (LokiPromResponsePtr (Some (\<lparr> Response = Some (\<lparr> PrometheusResponse_ErrorType = [], PrometheusResponse_Error = [],
          PrometheusResponse_Data = \<lparr> ResultType = ''vector'',
            Result = [\<lparr> Labels = [],
                Samples = [\<lparr> Value = 5, TimestampMs = 42 \<rparr>] \<rparr>] \<rparr>,
          PrometheusResponse_Headers = () \<rparr>), LokiPromResponse_Statistics = () \<rparr>)) :: (unit, int, unit, unit) Response_t) = Ok res)"
  using ResponseToResult_vector_panic
      [of "\<lparr> Response = Some (\<lparr> PrometheusResponse_ErrorType = [], PrometheusResponse_Error = [],
          PrometheusResponse_Data = \<lparr> ResultType = ''vector'',
            Result = [\<lparr> Labels = [],
                Samples = [\<lparr> Value = 5, TimestampMs = 42 \<rparr>] \<rparr>,
              \<lparr> Labels = [],
                Samples = [] \<rparr>,
              \<lparr> Labels = [],
                Samples = [\<lparr> Value = 6, TimestampMs = 42 \<rparr>] \<rparr>] \<rparr>,
          PrometheusResponse_Headers = () \<rparr>), LokiPromResponse_Statistics = () \<rparr>"
          "\<lparr> PrometheusResponse_ErrorType = [], PrometheusResponse_Error = [],
          PrometheusResponse_Data = \<lparr> ResultType = ''vector'',
            Result = [\<lparr> Labels = [],
                Samples = [\<lparr> Value = 5, TimestampMs = 42 \<rparr>] \<rparr>,
              \<lparr> Labels = [],
                Samples = [] \<rparr>,
              \<lparr> Labels = [],
                Samples = [\<lparr> Value = 6, TimestampMs = 42 \<rparr>] \<rparr>] \<rparr>,
          PrometheusResponse_Headers = () \<rparr> :: (int, unit) PrometheusResponse", where ?'s = unit]
    ResponseToResult_vector_panic
      [of "\<lparr> Response = Some (\<lparr> PrometheusResponse_ErrorType = [], PrometheusResponse_Error = [],
          PrometheusResponse_Data = \<lparr> ResultType = ''vector'',
            Result = [\<lparr> Labels = [],
                Samples = [\<lparr> Value = 5, TimestampMs = 42 \<rparr>] \<rparr>] \<rparr>,
          PrometheusResponse_Headers = () \<rparr>), LokiPromResponse_Statistics = () \<rparr>"
          "\<lparr> PrometheusResponse_ErrorType = [], PrometheusResponse_Error = [],
          PrometheusResponse_Data = \<lparr> ResultType = ''vector'',
            Result = [\<lparr> Labels = [],
                Samples = [\<lparr> Value = 5, TimestampMs = 42 \<rparr>] \<rparr>] \<rparr>,
          PrometheusResponse_Headers = () \<rparr> :: (int, unit) PrometheusResponse", where ?'s = unit]
  by simp

text \<open>
  The claim as stated, for every vector-shaped response, fails when the response carries
  an error message: the error is returned before any sample is read, also when a stream
  has no sample.
\<close>

theorem ResponseToResult_vector_panic_counterexample:
  "ResponseToResult
     (LokiPromResponsePtr (Some
      (\<lparr> Response = Some \<lparr> PrometheusResponse_ErrorType = ''timeout'', PrometheusResponse_Error = ''deadline hit'',
          PrometheusResponse_Data = \<lparr> ResultType = ''vector'',
            Result = [\<lparr> Labels = [],
                Samples = [] \<rparr>] \<rparr>,
          PrometheusResponse_Headers = () \<rparr>,
        LokiPromResponse_Statistics = () \<rparr>)) :: (unit, int, unit, unit) Response_t) = Err ''timeout: deadline hit''"
  by simp

subsection \<open>The bounded dispatcher: schedules and invariants\<close>

lemma For_run_append:
  "For_run qs fn (xs @ ys) s =
     (case For_run qs fn xs s of None \<Rightarrow> None | Some s' \<Rightarrow> For_run qs fn ys s')"
  by (induction xs arbitrary: s) (auto split: option.splits)

lemma For_run_snoc:
  "For_run qs fn (xs @ [a]) s = Some s'' \<longleftrightarrow>
     (\<exists>s'. For_run qs fn xs s = Some s' \<and> For_step qs fn a s' = Some s'')"
  by (auto simp: For_run_append split: option.splits)

lemma For_run_induct [consumes 1, case_names init step]:
  assumes "For_run qs fn sched s0 = Some s"
    and "P [] s0"
    and "\<And>sched a s s'. For_run qs fn sched s0 = Some s \<Longrightarrow> P sched s \<Longrightarrow>
           For_step qs fn a s = Some s' \<Longrightarrow> P (sched @ [a]) s'"
  shows "P sched s"
  using assms(1)
proof (induction sched arbitrary: s rule: rev_induct)
  case Nil
  then show ?case using assms(2) by simp
next
  case (snoc a sched)
  from snoc.prems obtain s' where r: "For_run qs fn sched s0 = Some s'"
    and st: "For_step qs fn a s' = Some s" by (auto simp: For_run_snoc)
  from assms(3) [OF r snoc.IH [OF r] st] show ?case .
qed

lemma For_step_cases [consumes 1, case_names ParentDone SupDone SupAcquire Start FnReturn
    DeliverErr DeliverOk DeliverPanic Drop Release CollDone CollReturn DeferCancel]:
  assumes "For_step qs fn a s = Some s'"
  obtains
    c where "a = ParentDone c" "ctx_err s = None" "s' = s\<lparr> ctx_err := Some c \<rparr>"
  | "a = SupDone" "sup_i s < length qs" "ctx_err s \<noteq> None" "s' = s\<lparr> sup_i := sup_i s + 1 \<rparr>"
  | "a = SupAcquire" "sup_i s < length qs" "0 < chan_len (pool s)"
      "s' = s\<lparr> pool := (pool s)\<lparr> chan_len := chan_len (pool s) - 1 \<rparr>,
                workers := (workers s)[sup_i s := Spawned], sup_i := sup_i s + 1 \<rparr>"
  | i where "a = Start i" "i < length (workers s)" "workers s ! i = Spawned"
      "s' = s\<lparr> workers := (workers s)[i := Running] \<rparr>"
  | i where "a = FnReturn i" "i < length (workers s)" "i < length qs" "workers s ! i = Running"
      "s' = s\<lparr> workers := (workers s)[i := Publishing
               \<lparr> resp_i = i, resp_res = fst (fn (qs ! i)), resp_err = snd (fn (qs ! i)) \<rparr>] \<rparr>"
  | i r j results e where "a = Deliver i" "i < length (workers s)" "workers s ! i = Publishing r"
      "coll s = Collecting j results" "j < length qs" "resp_err r = Some e"
      "s' = s\<lparr> workers := (workers s)[i := Releasing], coll := Returning None (Some (WorkErr e)) \<rparr>"
  | i r j results where "a = Deliver i" "i < length (workers s)" "workers s ! i = Publishing r"
      "coll s = Collecting j results" "j < length qs" "resp_err r = None" "resp_i r < length results"
      "s' = s\<lparr> workers := (workers s)[i := Releasing],
                coll := Collecting (j + 1) (results[resp_i r := resp_res r]) \<rparr>"
  | i r j results where "a = Deliver i" "i < length (workers s)" "workers s ! i = Publishing r"
      "coll s = Collecting j results" "j < length qs" "resp_err r = None" "\<not> resp_i r < length results"
      "s' = s\<lparr> workers := (workers s)[i := Releasing], coll := CollPanic \<rparr>"
  | i r where "a = Drop i" "i < length (workers s)" "ctx_err s \<noteq> None" "workers s ! i = Publishing r"
      "s' = s\<lparr> workers := (workers s)[i := Releasing] \<rparr>"
  | i where "a = Release i" "i < length (workers s)" "workers s ! i = Releasing"
      "chan_len (pool s) < chan_cap (pool s)"
      "s' = s\<lparr> pool := (pool s)\<lparr> chan_len := chan_len (pool s) + 1 \<rparr>,
                workers := (workers s)[i := Finished] \<rparr>"
  | j results c where "a = CollDone" "coll s = Collecting j results" "ctx_err s = Some c"
      "j < length qs" "s' = s\<lparr> coll := Returning None (Some (ContextErr c)) \<rparr>"
  | j results where "a = CollReturn" "coll s = Collecting j results" "\<not> j < length qs"
      "s' = s\<lparr> coll := Returning (Some results) None \<rparr>"
  | rs e where "a = DeferCancel" "coll s = Returning rs e"
      "s' = s\<lparr> coll := Returned rs e,
                ctx_err := (case ctx_err s of None \<Rightarrow> Some Canceled | Some c \<Rightarrow> Some c) \<rparr>"
proof (cases a)
  case (ParentDone c)
  then show ?thesis using assms that(1) by (auto split: if_splits)
next
  case SupDone
  then show ?thesis using assms that(2) by (auto split: if_splits)
next
  case SupAcquire
  then show ?thesis using assms that(3)
    by (auto simp: chan_recv_def split: if_splits option.splits)
next
  case (Start i)
  then show ?thesis using assms that(4) by (auto split: if_splits)
next
  case (FnReturn i)
  then show ?thesis using assms that(5) by (auto split: if_splits prod.splits)
next
  case (Deliver i)
  then show ?thesis using assms that(6,7,8) [of i]
    by (auto split: if_splits worker.splits collector.splits option.splits)
next
  case (Drop i)
  then show ?thesis using assms that(9) by (auto split: if_splits worker.splits)
next
  case (Release i)
  then show ?thesis using assms that(10)
    by (auto simp: chan_send_def split: if_splits option.splits)
next
  case CollDone
  then show ?thesis using assms that(11)
    by (auto split: if_splits collector.splits option.splits)
next
  case CollReturn
  then show ?thesis using assms that(12) by (auto split: if_splits collector.splits)
next
  case DeferCancel
  then show ?thesis using assms that(13) by (auto split: collector.splits)
qed

lemma filter_count_update:
  "i < length ws \<Longrightarrow>
   length (filter P (ws[i := w])) + (if P (ws ! i) then 1 else 0)
     = length (filter P ws) + (if P w then 1 else 0)"
proof (induction ws arbitrary: i)
  case Nil
  then show ?case by simp
next
  case (Cons x ws)
  then show ?case by (cases i) auto
qed

lemma filter_count_mono:
  "(\<And>x. P x \<Longrightarrow> Q x) \<Longrightarrow> length (filter P xs) \<le> length (filter Q xs)"
  by (induction xs) auto

lemma executing_le_held: "executing s \<le> held s"
  unfolding executing_def held_def by (rule filter_count_mono) simp

lemma held_update:
  "i < length (workers s) \<Longrightarrow>
   held (s\<lparr> workers := (workers s)[i := w] \<rparr>) + (if holds_token (workers s ! i) then 1 else 0)
     = held s + (if holds_token w then 1 else 0)"
  unfolding held_def using filter_count_update [of i "workers s" holds_token w] by simp

lemma For_init_simps:
  "pool (For_init inst zero qs) = locks inst"
  "ctx_err (For_init inst zero qs) = None"
  "sup_i (For_init inst zero qs) = 0"
  "workers (For_init inst zero qs) = replicate (length qs) Idle"
  "coll (For_init inst zero qs) = Collecting 0 (replicate (length qs) zero)"
  by (simp_all add: For_init_def)

lemma held_init: "held (For_init inst zero qs) = 0"
  by (simp add: held_def For_init_def)

lemma tokens_invariant:
  assumes "For_run qs fn sched (For_init inst zero qs) = Some s"
  shows "length (workers s) = length qs
     \<and> chan_cap (pool s) = chan_cap (locks inst)
     \<and> chan_len (pool s) + held s = chan_len (locks inst)
     \<and> sup_i s \<le> length qs
     \<and> (\<forall>k. sup_i s \<le> k \<longrightarrow> k < length qs \<longrightarrow> workers s ! k = Idle)"
  using assms
proof (induction rule: For_run_induct)
  case init
  show ?case by (simp add: For_init_simps held_init)
next
  case (step sched a s s')
  note inv = step.IH
  from step.hyps(2) show ?case
  proof (cases rule: For_step_cases)
    case (ParentDone c)
    then show ?thesis using inv by (simp add: held_def)
  next
    case SupDone
    then show ?thesis using inv by (simp add: held_def)
  next
    case SupAcquire
    have i: "sup_i s < length (workers s)" "workers s ! sup_i s = Idle"
      using inv SupAcquire(2) by simp_all
    have "held (s\<lparr> workers := (workers s)[sup_i s := Spawned] \<rparr>) = held s + 1"
      using held_update [OF i(1), of Spawned] i(2) by simp
    then have "held s' = held s + 1"
      using SupAcquire(4) by (simp add: held_def)
    then show ?thesis using inv SupAcquire by simp
  next
    case (Start i)
    have "held (s\<lparr> workers := (workers s)[i := Running] \<rparr>) = held s"
      using held_update [OF Start(2), of Running] Start(3) by simp
    moreover have "i < sup_i s"
      using inv Start(2,3) by (metis not_le_imp_less worker.distinct(1))
    ultimately show ?thesis using inv Start by simp
  next
    case (FnReturn i)
    have "held s' = held s"
      using held_update [OF FnReturn(2), of "Publishing
               \<lparr> resp_i = i, resp_res = fst (fn (qs ! i)), resp_err = snd (fn (qs ! i)) \<rparr>"] FnReturn(4,5)
      by simp
    moreover have "i < sup_i s"
      using inv FnReturn(2,4) by (metis not_le_imp_less worker.distinct(3))
    ultimately show ?thesis using inv FnReturn by simp
  next
    case (DeliverErr i r j results e)
    have "held (s\<lparr> workers := (workers s)[i := Releasing] \<rparr>) = held s"
      using held_update [OF DeliverErr(2), of Releasing] DeliverErr(3) by simp
    then have "held s' = held s" using DeliverErr(7) by (simp add: held_def)
    moreover have "i < sup_i s"
      using inv DeliverErr(2,3) by (metis not_le_imp_less worker.distinct(5))
    ultimately show ?thesis using inv DeliverErr by simp
  next
    case (DeliverOk i r j results)
    have "held (s\<lparr> workers := (workers s)[i := Releasing] \<rparr>) = held s"
      using held_update [OF DeliverOk(2), of Releasing] DeliverOk(3) by simp
    then have "held s' = held s" using DeliverOk(8) by (simp add: held_def)
    moreover have "i < sup_i s"
      using inv DeliverOk(2,3) by (metis not_le_imp_less worker.distinct(5))
    ultimately show ?thesis using inv DeliverOk by simp
  next
    case (DeliverPanic i r j results)
    have "held (s\<lparr> workers := (workers s)[i := Releasing] \<rparr>) = held s"
      using held_update [OF DeliverPanic(2), of Releasing] DeliverPanic(3) by simp
    then have "held s' = held s" using DeliverPanic(8) by (simp add: held_def)
    moreover have "i < sup_i s"
      using inv DeliverPanic(2,3) by (metis not_le_imp_less worker.distinct(5))
    ultimately show ?thesis using inv DeliverPanic by simp
  next
    case (Drop i r)
    have "held s' = held s"
      using held_update [OF Drop(2), of Releasing] Drop(4,5) by simp
    moreover have "i < sup_i s"
      using inv Drop(2,4) by (metis not_le_imp_less worker.distinct(5))
    ultimately show ?thesis using inv Drop by simp
  next
    case (Release i)
    have "held (s\<lparr> workers := (workers s)[i := Finished] \<rparr>) + 1 = held s"
      using held_update [OF Release(2), of Finished] Release(3) by simp
    then have "held s' + 1 = held s" using Release(5) by (simp add: held_def)
    moreover have "i < sup_i s"
      using inv Release(2,3) by (metis not_le_imp_less worker.distinct(7))
    ultimately show ?thesis using inv Release by simp
  next
    case (CollDone j results c)
    then show ?thesis using inv by (simp add: held_def)
  next
    case (CollReturn j results)
    then show ?thesis using inv by (simp add: held_def)
  next
    case (DeferCancel rs e)
    then show ?thesis using inv by (simp add: held_def)
  qed
qed

lemma Downstreamer_pool:
  assumes "Downstreamer TenantID h ctx = Some inst"
  shows "0 < parallelism inst"
    and "chan_cap (locks inst) = nat (parallelism inst)"
    and "chan_len (locks inst) = nat (parallelism inst)"
  using assms resolve_parallelism_pos [of TenantID h ctx]
  unfolding Downstreamer_eq by auto

lemma For_empty_invariant:
  assumes "For_run ([] :: 'q list) fn sched (For_init inst zero ([] :: 'q list)) = Some s"
  shows "workers s = [] \<and> pool s = locks inst \<and> sup_i s = 0
     \<and> (coll s = Collecting 0 [] \<or> coll s = Returning (Some []) None \<or> coll s = Returned (Some []) None)
     \<and> SupAcquire \<notin> set sched"
  using assms
proof (induction rule: For_run_induct)
  case init
  show ?case by (simp add: For_init_def)
next
  case (step sched a s s')
  from step.hyps(2) show ?case
    by (cases rule: For_step_cases) (use step.IH in auto)
qed

lemma delivered_append: "delivered (xs @ ys) = delivered xs @ delivered ys"
  by (induction xs rule: delivered.induct) auto

lemma delivered_snoc:
  "delivered (xs @ [a]) = delivered xs @ (case a of Deliver i \<Rightarrow> [i] | _ \<Rightarrow> [])"
  by (cases a) (simp_all add: delivered_append)

lemma find_snoc:
  "find P (xs @ [x]) = (case find P xs of None \<Rightarrow> (if P x then Some x else None) | Some y \<Rightarrow> Some y)"
  by (induction xs) auto

lemma find_None_iff_all: "find P xs = None \<longleftrightarrow> (\<forall>x \<in> set xs. \<not> P x)"
  by (induction xs) auto

lemma distinct_below_full:
  assumes "distinct D" and "\<forall>i \<in> set D. i < n" and "n \<le> length D"
  shows "set D = {..<n}"
proof -
  have "set D \<subseteq> {..<n}" using assms(2) by auto
  moreover have "card {..<n} \<le> card (set D)"
    using assms(1,3) by (simp add: distinct_card)
  ultimately show ?thesis by (intro card_seteq) simp_all
qed

lemma publishing_invariant:
  assumes "For_run qs fn sched (For_init inst zero qs) = Some s"
  shows "\<forall>k r. k < length qs \<longrightarrow> workers s ! k = Publishing r \<longrightarrow>
           r = \<lparr> resp_i = k, resp_res = fst (fn (qs ! k)), resp_err = snd (fn (qs ! k)) \<rparr>"
  using assms
proof (induction rule: For_run_induct)
  case init
  show ?case by (simp add: For_init_simps)
next
  case (step sched a s s')
  have len: "length (workers s) = length qs"
    using tokens_invariant [OF step.hyps(1)] by simp
  from step.hyps(2) show ?case
    by (cases rule: For_step_cases) (use step.IH len in \<open>auto simp: nth_list_update\<close>)
qed

lemma delivered_invariant:
  assumes "For_run qs fn sched (For_init inst zero qs) = Some s"
  shows "distinct (delivered sched)
     \<and> (\<forall>i \<in> set (delivered sched). i < length qs
           \<and> (workers s ! i = Releasing \<or> workers s ! i = Finished))"
  using assms
proof (induction rule: For_run_induct)
  case init
  show ?case by simp
next
  case (step sched a s s')
  have len: "length (workers s) = length qs"
    and idle: "\<forall>k. sup_i s \<le> k \<longrightarrow> k < length qs \<longrightarrow> workers s ! k = Idle"
    using tokens_invariant [OF step.hyps(1)] by simp_all
  from step.hyps(2) show ?case
    by (cases rule: For_step_cases)
       (use step.IH len idle in \<open>auto simp: nth_list_update delivered_snoc\<close>)
qed

lemma collecting_invariant:
  assumes "For_run qs fn sched (For_init inst zero qs) = Some s"
  shows "\<forall>j results. coll s = Collecting j results \<longrightarrow>
           j = length (delivered sched) \<and> length results = length qs
           \<and> (\<forall>i \<in> set (delivered sched). snd (fn (qs ! i)) = None)
           \<and> (\<forall>i < length qs. results ! i = (if i \<in> set (delivered sched) then fst (fn (qs ! i)) else zero))"
  using assms
proof (induction rule: For_run_induct)
  case init
  show ?case by (simp add: For_init_simps)
next
  case (step sched a s s')
  have len: "length (workers s) = length qs"
    using tokens_invariant [OF step.hyps(1)] by simp
  note pub = publishing_invariant [OF step.hyps(1)]
  from step.hyps(2) show ?case
  proof (cases rule: For_step_cases)
    case (DeliverOk i r j results)
    have r: "r = \<lparr> resp_i = i, resp_res = fst (fn (qs ! i)), resp_err = snd (fn (qs ! i)) \<rparr>"
      using pub DeliverOk(2,3) len by simp
    have ok: "snd (fn (qs ! i)) = None" "resp_i r = i" "resp_res r = fst (fn (qs ! i))"
      using DeliverOk(6) r by simp_all
    show ?thesis
      using step.IH DeliverOk(4,7) ok
      by (auto simp: DeliverOk(1,8) delivered_snoc nth_list_update)
  qed (use step.IH in \<open>auto simp: delivered_snoc\<close>)
qed

lemma no_panic_invariant:
  assumes "For_run qs fn sched (For_init inst zero qs) = Some s"
  shows "coll s \<noteq> CollPanic"
  using assms
proof (induction rule: For_run_induct)
  case init
  show ?case by (simp add: For_init_simps)
next
  case (step sched a s s')
  have len: "length (workers s) = length qs"
    using tokens_invariant [OF step.hyps(1)] by simp
  note pub = publishing_invariant [OF step.hyps(1)]
  note col = collecting_invariant [OF step.hyps(1)]
  from step.hyps(2) show ?case
  proof (cases rule: For_step_cases)
    case (DeliverPanic i r j results)
    have "r = \<lparr> resp_i = i, resp_res = fst (fn (qs ! i)), resp_err = snd (fn (qs ! i)) \<rparr>"
      using pub DeliverPanic(2,3) len by simp
    then have "resp_i r < length results"
      using col DeliverPanic(2,4) len by simp
    then show ?thesis using DeliverPanic(7) by simp
  qed (use step.IH in auto)
qed

lemma ctx_invariant:
  assumes "For_run qs fn sched (For_init inst zero qs) = Some s"
  shows "\<forall>j results c. coll s = Collecting j results \<longrightarrow> ctx_err s = Some c \<longrightarrow>
           ParentDone c \<in> set sched"
  using assms
proof (induction rule: For_run_induct)
  case init
  show ?case by (simp add: For_init_simps)
next
  case (step sched a s s')
  from step.hyps(2) show ?case
    by (cases rule: For_step_cases) (use step.IH in auto)
qed

lemma return_invariant:
  assumes "For_run qs fn sched (For_init inst zero qs) = Some s"
  shows "\<forall>rs e. (coll s = Returning rs e \<or> coll s = Returned rs e) \<longrightarrow>
     (e = None \<longrightarrow> rs = Some (map (\<lambda>q. fst (fn q)) qs) \<and> (\<forall>q \<in> set qs. snd (fn q) = None))
     \<and> (\<forall>x. e = Some (WorkErr x) \<longrightarrow> rs = None
            \<and> (\<exists>i. find (\<lambda>i. snd (fn (qs ! i)) \<noteq> None) (delivered sched) = Some i
                   \<and> snd (fn (qs ! i)) = Some x))
     \<and> (\<forall>c. e = Some (ContextErr c) \<longrightarrow> rs = None \<and> ParentDone c \<in> set sched)"
  using assms
proof (induction rule: For_run_induct)
  case init
  show ?case by (simp add: For_init_simps)
next
  case (step sched a s s')
  have len: "length (workers s) = length qs"
    using tokens_invariant [OF step.hyps(1)] by simp
  note pub = publishing_invariant [OF step.hyps(1)]
  note col = collecting_invariant [OF step.hyps(1)]
  note del = delivered_invariant [OF step.hyps(1)]
  note ctx = ctx_invariant [OF step.hyps(1)]
  from step.hyps(2) show ?case
  proof (cases rule: For_step_cases)
    case (DeliverErr i r j results e)
    have r: "r = \<lparr> resp_i = i, resp_res = fst (fn (qs ! i)), resp_err = snd (fn (qs ! i)) \<rparr>"
      using pub DeliverErr(2,3) len by simp
    then have e: "snd (fn (qs ! i)) = Some e" using DeliverErr(6) by simp
    have "find (\<lambda>i. snd (fn (qs ! i)) \<noteq> None) (delivered sched) = None"
      using col DeliverErr(4) by (simp add: find_None_iff_all)
    then have "find (\<lambda>i. snd (fn (qs ! i)) \<noteq> None) (delivered (sched @ [a])) = Some i"
      using e by (simp add: DeliverErr(1) delivered_snoc find_snoc)
    then show ?thesis using e by (simp add: DeliverErr(7))
  next
    case (CollDone j results c)
    then show ?thesis using ctx by simp
  next
    case (CollReturn j results)
    have j: "j = length (delivered sched)" and lr: "length results = length qs"
      and ok: "\<forall>i \<in> set (delivered sched). snd (fn (qs ! i)) = None"
      and res: "\<forall>i < length qs. results ! i = (if i \<in> set (delivered sched) then fst (fn (qs ! i)) else zero)"
      using col CollReturn(2) by simp_all
    have full: "set (delivered sched) = {..<length qs}"
      using del j CollReturn(3) by (intro distinct_below_full) simp_all
    have "results = map (\<lambda>q. fst (fn q)) qs"
      using lr res full by (intro nth_equalityI) simp_all
    moreover have "\<forall>q \<in> set qs. snd (fn q) = None"
      using ok full by (auto simp: in_set_conv_nth)
    ultimately show ?thesis by (simp add: CollReturn(4))
  next
    case (DeferCancel rs e)
    then show ?thesis using step.IH by (auto simp: delivered_snoc)
  qed (use step.IH in \<open>auto simp: delivered_snoc\<close>)
qed

lemma no_drop_invariant:
  assumes "For_run qs fn sched (For_init inst zero qs) = Some s"
  shows "ctx_err s = None \<longrightarrow>
     (\<forall>k < sup_i s. workers s ! k \<noteq> Idle)
     \<and> (\<forall>k < length qs. workers s ! k = Releasing \<or> workers s ! k = Finished \<longrightarrow> k \<in> set (delivered sched))"
  using assms
proof (induction rule: For_run_induct)
  case init
  show ?case by (simp add: For_init_simps)
next
  case (step sched a s s')
  have len: "length (workers s) = length qs"
    and idle: "\<forall>k. sup_i s \<le> k \<longrightarrow> k < length qs \<longrightarrow> workers s ! k = Idle"
    and sup: "sup_i s \<le> length qs"
    using tokens_invariant [OF step.hyps(1)] by simp_all
  from step.hyps(2) show ?case
    by (cases rule: For_step_cases)
       (use step.IH len idle sup in \<open>auto simp: nth_list_update delivered_snoc less_Suc_eq split: option.splits\<close>)
qed

lemma held_pos: "k < length (workers s) \<Longrightarrow> holds_token (workers s ! k) \<Longrightarrow> 0 < held s"
  unfolding held_def by (metis filter_empty_conv length_greater_0_conv nth_mem)

lemma held_zero: "\<forall>k < length (workers s). \<not> holds_token (workers s ! k) \<Longrightarrow> held s = 0"
  unfolding held_def by (auto simp: filter_empty_conv in_set_conv_nth)

lemma enabledI:
  "For_step qs fn a s \<noteq> None \<Longrightarrow> (\<forall>c. a \<noteq> ParentDone c) \<Longrightarrow>
   \<exists>a s'. (\<forall>c. a \<noteq> ParentDone c) \<and> For_step qs fn a s = Some s'"
  by auto

lemma For_progress:
  assumes run: "For_run qs fn sched (For_init inst zero qs) = Some s"
    and pos: "0 < chan_len (locks inst)"
    and cap: "chan_len (locks inst) \<le> chan_cap (locks inst)"
    and nores: "For_result s = None"
  shows "\<exists>a s'. (\<forall>c. a \<noteq> ParentDone c) \<and> For_step qs fn a s = Some s'"
proof -
  note tok = tokens_invariant [OF run]
  have len: "length (workers s) = length qs" using tok by simp
  consider j results where "coll s = Collecting j results" | rs e where "coll s = Returning rs e"
    | rs e where "coll s = Returned rs e" | "coll s = CollPanic"
    by (cases "coll s") auto
  then show ?thesis
  proof cases
    case (1 j results)
    show ?thesis
    proof (cases "j < length qs")
      case False
      then have "For_step qs fn CollReturn s \<noteq> None" using 1 by simp
      then show ?thesis by (rule enabledI) simp
    next
      case jn: True
      show ?thesis
      proof (cases "ctx_err s")
        case (Some c)
        then have "For_step qs fn CollDone s \<noteq> None" using 1 jn by simp
        then show ?thesis by (rule enabledI) simp
      next
        case None
        note nd = no_drop_invariant [OF run, rule_format, OF None]
        show ?thesis
        proof (cases "\<exists>k < length qs. holds_token (workers s ! k)")
          case True
          then obtain k where k: "k < length qs" "holds_token (workers s ! k)" by blast
          then have hp: "0 < held s" using held_pos [of k s] len by simp
          show ?thesis
          proof (cases "workers s ! k")
            case Spawned
            then have "For_step qs fn (Start k) s \<noteq> None" using k len by simp
            then show ?thesis by (rule enabledI) simp
          next
            case Running
            then have "For_step qs fn (FnReturn k) s \<noteq> None"
              using k len by (simp split: prod.splits)
            then show ?thesis by (rule enabledI) simp
          next
            case (Publishing r)
            then have "For_step qs fn (Deliver k) s \<noteq> None"
              using k len 1 jn by simp
            then show ?thesis by (rule enabledI) simp
          next
            case Releasing
            have "chan_len (pool s) < chan_cap (pool s)" using tok hp cap by simp
            then have "For_step qs fn (Release k) s \<noteq> None"
              using Releasing k len by (simp add: chan_send_def)
            then show ?thesis by (rule enabledI) simp
          qed (use k in simp_all)
        next
          case False
          then have h0: "held s = 0" using held_zero [of s] len by simp
          show ?thesis
          proof (cases "sup_i s < length qs")
            case True
            have "0 < chan_len (pool s)" using tok h0 pos by simp
            then have "For_step qs fn SupAcquire s \<noteq> None"
              using True by (simp add: chan_recv_def)
            then show ?thesis by (rule enabledI) simp
          next
            case sf: False
            then have sn: "sup_i s = length qs" using tok by simp
            have "\<forall>k < length qs. workers s ! k = Finished"
            proof (intro allI impI)
              fix k assume kn: "k < length qs"
              then have "workers s ! k \<noteq> Idle" using nd sn by simp
              moreover have "\<not> holds_token (workers s ! k)" using False kn by simp
              ultimately show "workers s ! k = Finished" by (cases "workers s ! k") simp_all
            qed
            then have "{..<length qs} \<subseteq> set (delivered sched)" using nd by auto
            then have "card {..<length qs} \<le> card (set (delivered sched))"
              by (intro card_mono) simp_all
            also have "\<dots> \<le> length (delivered sched)" by (rule card_length)
            also have "\<dots> = j" using collecting_invariant [OF run] 1 by simp
            finally show ?thesis using jn by simp
          qed
        qed
      qed
    qed
  next
    case (2 rs e)
    then have "For_step qs fn DeferCancel s \<noteq> None" by simp
    then show ?thesis by (rule enabledI) simp
  next
    case (3 rs e)
    then show ?thesis using nores by (simp add: For_result_def)
  next
    case 4
    then show ?thesis using no_panic_invariant [OF run] by simp
  qed
qed

lemma sum_list_map_update:
  "i < length ws \<Longrightarrow>
   sum_list (map f (ws[i := w])) + f (ws ! i) = sum_list (map f ws) + (f w :: nat)"
proof (induction ws arbitrary: i)
  case Nil
  then show ?case by simp
next
  case (Cons x ws)
  then show ?case by (cases i) auto
qed

lemma rank_update:
  "i < length (workers s) \<Longrightarrow>
   sum_list (map worker_rank ((workers s)[i := w])) + worker_rank (workers s ! i)
     = sum_list (map worker_rank (workers s)) + worker_rank w"
  by (rule sum_list_map_update)

lemma For_step_measure:
  assumes st: "For_step qs fn a s = Some s'"
    and len: "length (workers s) = length qs"
    and idle: "\<forall>k. sup_i s \<le> k \<longrightarrow> k < length qs \<longrightarrow> workers s ! k = Idle"
  shows "For_measure (length qs) s' < For_measure (length qs) s"
  using st
proof (cases rule: For_step_cases)
  case SupAcquire
  have "sup_i s < length (workers s)" "workers s ! sup_i s = Idle"
    using SupAcquire(2) len idle by simp_all
  from rank_update [OF this(1), of Spawned] this(2) show ?thesis
    using SupAcquire(2) by (simp add: For_measure_def SupAcquire(4))
next
  case (Start i)
  from rank_update [OF Start(2), of Running] Start(3) show ?thesis
    by (simp add: For_measure_def Start(4))
next
  case (FnReturn i)
  from rank_update [OF FnReturn(2),
      of "Publishing \<lparr> resp_i = i, resp_res = fst (fn (qs ! i)), resp_err = snd (fn (qs ! i)) \<rparr>"]
    FnReturn(4) show ?thesis
    by (simp add: For_measure_def FnReturn(5))
next
  case (DeliverErr i r j results e)
  from rank_update [OF DeliverErr(2), of Releasing] DeliverErr(3,4) show ?thesis
    by (simp add: For_measure_def DeliverErr(7))
next
  case (DeliverOk i r j results)
  from rank_update [OF DeliverOk(2), of Releasing] DeliverOk(3,4,5) show ?thesis
    by (simp add: For_measure_def DeliverOk(8))
next
  case (DeliverPanic i r j results)
  from rank_update [OF DeliverPanic(2), of Releasing] DeliverPanic(3,4) show ?thesis
    by (simp add: For_measure_def DeliverPanic(8))
next
  case (Drop i r)
  from rank_update [OF Drop(2), of Releasing] Drop(4) show ?thesis
    by (simp add: For_measure_def Drop(5))
next
  case (Release i)
  from rank_update [OF Release(2), of Finished] Release(3) show ?thesis
    by (simp add: For_measure_def Release(5))
next
  case (DeferCancel rs e)
  then show ?thesis by (simp add: For_measure_def split: option.splits)
qed (auto simp: For_measure_def)

lemma For_run_bounded:
  assumes "For_run qs fn sched (For_init inst zero qs) = Some s"
  shows "length sched + For_measure (length qs) s \<le> 6 * length qs + 3"
  using assms
proof (induction rule: For_run_induct)
  case init
  have "sum_list (map worker_rank (replicate (length qs) (Idle :: ('b, 'c) worker))) = 0"
    by (induction "length qs") (simp_all add: sum_list_replicate)
  then show ?case by (simp add: For_measure_def For_init_simps)
next
  case (step sched a s s')
  have "For_measure (length qs) s' < For_measure (length qs) s"
    using tokens_invariant [OF step.hyps(1)]
    by (intro For_step_measure [OF step.hyps(2)]) simp_all
  then show ?case using step.IH by simp
qed

lemma For_run_length: 
  "For_run qs fn sched (For_init inst zero qs) = Some s \<Longrightarrow> length sched \<le> 6 * length qs + 3"
  using For_run_bounded [of qs fn sched inst zero s] by simp

lemma For_result_Some: "For_result s = Some (rs, e) \<longleftrightarrow> coll s = Returned rs e"
  by (auto simp: For_result_def split: collector.splits)

subsection \<open>The bounded dispatcher: the claims\<close>

text \<open>
  Claim C1. Let the instance come from \<open>Downstreamer\<close> and let the work function succeed
  on every sub-query. Whatever the schedule, when \<open>For\<close> has returned without error the
  result list has one entry per sub-query and entry \<open>i\<close> is the result of the work
  function on sub-query \<open>i\<close>; the only other return is no list together with the error
  of the context, and only when the caller's context has ended. \<open>For\<close> does return: as
  long as it has not, some goroutine can take a step, and no schedule is longer than
  \<open>6 n + 3\<close> steps.
\<close>

theorem For_order_preserved:
  assumes "Downstreamer TenantID h ctx = Some inst"
    and "\<forall>q \<in> set queries. snd (fn q) = None"
    and "For_run queries fn sched (For_init inst zero queries) = Some s"
  shows "(\<forall>rs e. For_result s = Some (rs, e) \<longrightarrow>
            (e = None \<and> (\<exists>results. rs = Some results \<and> length results = length queries
                \<and> (\<forall>i < length queries. results ! i = fst (fn (queries ! i)))))
          \<or> (rs = None \<and> (\<exists>c. e = Some (ContextErr c) \<and> ParentDone c \<in> set sched)))
       \<and> (For_result s = None \<longrightarrow>
            (\<exists>a s'. (\<forall>c. a \<noteq> ParentDone c) \<and> For_step queries fn a s = Some s'))
       \<and> length sched \<le> 6 * length queries + 3"
proof (intro conjI allI impI)
  fix rs e assume "For_result s = Some (rs, e)"
  then have ret: "coll s = Returned rs e" by (simp add: For_result_Some)
  note inv = return_invariant [OF assms(3), rule_format, OF disjI2, OF ret]
  show "(e = None \<and> (\<exists>results. rs = Some results \<and> length results = length queries
                \<and> (\<forall>i < length queries. results ! i = fst (fn (queries ! i)))))
          \<or> (rs = None \<and> (\<exists>c. e = Some (ContextErr c) \<and> ParentDone c \<in> set sched))"
  proof (cases e)
    case None
    then show ?thesis using inv by simp
  next
    case (Some err)
    show ?thesis
    proof (cases err)
      case (ContextErr c)
      then show ?thesis using inv Some by simp
    next
      case (WorkErr x)
      then obtain i where i: "find (\<lambda>i. snd (fn (queries ! i)) \<noteq> None) (delivered sched) = Some i"
        "snd (fn (queries ! i)) = Some x" using inv Some by blast
      then have "i \<in> set (delivered sched)" by (auto simp: find_Some_iff)
      then have "i < length queries" using delivered_invariant [OF assms(3)] by simp
      then have "snd (fn (queries ! i)) = None" using assms(2) by simp
      then show ?thesis using i(2) by simp
    qed
  qed
next
  assume "For_result s = None"
  then show "\<exists>a s'. (\<forall>c. a \<noteq> ParentDone c) \<and> For_step queries fn a s = Some s'"
    using Downstreamer_pool [OF assms(1)]
    by (intro For_progress [OF assms(3)]) simp_all
next
  show "length sched \<le> 6 * length queries + 3"
    by (rule For_run_length [OF assms(3)])
qed

theorem For_order_preserved_witness:
  "\<exists>s. For_run [10, 20, 30 :: nat] (\<lambda>q. (q + 1, None :: unit option))
         [SupAcquire, SupAcquire, Start 0, Start 1, FnReturn 1, Deliver 1, Release 1, SupAcquire,
          Start 2, FnReturn 2, Deliver 2, FnReturn 0, Deliver 0, CollReturn, DeferCancel]
         (For_init \<lparr> parallelism = 2, locks = \<lparr> chan_cap = 2, chan_len = 2 \<rparr>, handler = () \<rparr> (0 :: nat)
            [10, 20, 30 :: nat]) = Some s
     \<and> For_result s = Some (Some [11, 21, 31], None)"
proof -
  let ?inst = "\<lparr> parallelism = 2, locks = \<lparr> chan_cap = 2, chan_len = 2 \<rparr>, handler = () \<rparr>"
  let ?fn = "\<lambda>q :: nat. (q + 1, None :: unit option)"
  let ?qs = "[10, 20, 30 :: nat]"
  let ?sched = "[SupAcquire, SupAcquire, Start 0, Start 1, FnReturn 1, Deliver 1, Release 1, SupAcquire,
          Start 2, FnReturn 2, Deliver 2, FnReturn 0, Deliver 0, CollReturn, DeferCancel]"
  have d: "Downstreamer (\<lambda>ctx :: unit. (''tenant-a'', None :: unit option))
      \<lparr> limits = (\<lambda>ctx user. 2), next = () \<rparr> () = Some ?inst"
    by (simp add: Downstreamer_eq resolve_parallelism_def DefaultDownstreamConcurrency_def)
  have ok: "\<forall>q \<in> set ?qs. snd (?fn q) = None" by simp
  have "\<exists>s. For_run ?qs ?fn ?sched (For_init ?inst (0 :: nat) ?qs) = Some s
          \<and> (\<exists>rs. For_result s = Some (rs, None))"
    by (simp add: For_init_def For_result_def chan_recv_def chan_send_def)
  then obtain s rs where r: "For_run ?qs ?fn ?sched (For_init ?inst (0 :: nat) ?qs) = Some s"
    and res: "For_result s = Some (rs, None)" by blast
  from For_order_preserved [OF d ok r] res
  obtain results where "rs = Some results" "length results = 3"
    "\<forall>i < 3. results ! i = fst (?fn (?qs ! i))" by auto
  then have "results = [11, 21, 31]"
    by (intro nth_equalityI) (auto simp: less_Suc_eq numeral_3_eq_3)
  with \<open>rs = Some results\<close> res r show ?thesis by blast
qed

text \<open>
  Claim C2. Let the instance come from \<open>Downstreamer\<close> and let the work function fail on
  some sub-query. Whatever the schedule, when \<open>For\<close> has returned it has returned no
  result list and an error: the error of the first failing response in the order of
  delivery, or the error of the context when the caller's context has ended. \<open>For\<close> does
  return, as in claim C1.
\<close>

theorem For_fail_fast:
  assumes "Downstreamer TenantID h ctx = Some inst"
    and "\<exists>q \<in> set queries. snd (fn q) \<noteq> None"
    and "For_run queries fn sched (For_init inst zero queries) = Some s"
  shows "(\<forall>rs e. For_result s = Some (rs, e) \<longrightarrow> rs = None
            \<and> ((\<exists>i x. e = Some (WorkErr x)
                   \<and> find (\<lambda>i. snd (fn (queries ! i)) \<noteq> None) (delivered sched) = Some i
                   \<and> snd (fn (queries ! i)) = Some x)
               \<or> (\<exists>c. e = Some (ContextErr c) \<and> ParentDone c \<in> set sched)))
       \<and> (For_result s = None \<longrightarrow>
            (\<exists>a s'. (\<forall>c. a \<noteq> ParentDone c) \<and> For_step queries fn a s = Some s'))
       \<and> length sched \<le> 6 * length queries + 3"
proof (intro conjI allI impI)
  fix rs e assume "For_result s = Some (rs, e)"
  then have ret: "coll s = Returned rs e" by (simp add: For_result_Some)
  note inv = return_invariant [OF assms(3), rule_format, OF disjI2, OF ret]
  have e: "e \<noteq> None" using inv assms(2) by auto
  then obtain err where err: "e = Some err" by blast
  show "rs = None" using inv err by (cases err) simp_all
  show "(\<exists>i x. e = Some (WorkErr x)
                   \<and> find (\<lambda>i. snd (fn (queries ! i)) \<noteq> None) (delivered sched) = Some i
                   \<and> snd (fn (queries ! i)) = Some x)
               \<or> (\<exists>c. e = Some (ContextErr c) \<and> ParentDone c \<in> set sched)"
    using inv err by (cases err) auto
next
  assume "For_result s = None"
  then show "\<exists>a s'. (\<forall>c. a \<noteq> ParentDone c) \<and> For_step queries fn a s = Some s'"
    using Downstreamer_pool [OF assms(1)]
    by (intro For_progress [OF assms(3)]) simp_all
next
  show "length sched \<le> 6 * length queries + 3"
    by (rule For_run_length [OF assms(3)])
qed

theorem For_fail_fast_witness:
  "\<exists>s. For_run [1, 2, 3 :: nat] (\<lambda>q. (q * 10, if q = 2 then Some ''boom'' else None))
         [SupAcquire, SupAcquire, Start 0, Start 1, FnReturn 0, Deliver 0, FnReturn 1, Deliver 1,
          DeferCancel]
         (For_init \<lparr> parallelism = 2, locks = \<lparr> chan_cap = 2, chan_len = 2 \<rparr>, handler = () \<rparr> (0 :: nat)
            [1, 2, 3 :: nat]) = Some s
     \<and> For_result s = Some (None, Some (WorkErr ''boom''))"
proof -
  let ?inst = "\<lparr> parallelism = 2, locks = \<lparr> chan_cap = 2, chan_len = 2 \<rparr>, handler = () \<rparr>"
  let ?fn = "\<lambda>q :: nat. (q * 10, if q = 2 then Some ''boom'' else None)"
  let ?qs = "[1, 2, 3 :: nat]"
  let ?sched = "[SupAcquire, SupAcquire, Start 0, Start 1, FnReturn 0, Deliver 0, FnReturn 1, Deliver 1,
          DeferCancel]"
  have d: "Downstreamer (\<lambda>ctx :: unit. (''tenant-a'', None :: unit option))
      \<lparr> limits = (\<lambda>ctx user. 2), next = () \<rparr> () = Some ?inst"
    by (simp add: Downstreamer_eq resolve_parallelism_def DefaultDownstreamConcurrency_def)
  have bad: "\<exists>q \<in> set ?qs. snd (?fn q) \<noteq> None" by simp
  have "\<exists>s. For_run ?qs ?fn ?sched (For_init ?inst (0 :: nat) ?qs) = Some s
          \<and> (\<exists>rs e. For_result s = Some (rs, e))"
    by (simp add: For_init_def For_result_def chan_recv_def chan_send_def)
  then obtain s rs e where r: "For_run ?qs ?fn ?sched (For_init ?inst (0 :: nat) ?qs) = Some s"
    and res: "For_result s = Some (rs, e)" by blast
  from For_fail_fast [OF d bad r] res
  have rs: "rs = None" and "(\<exists>i x. e = Some (WorkErr x)
                   \<and> find (\<lambda>i. snd (?fn (?qs ! i)) \<noteq> None) (delivered ?sched) = Some i
                   \<and> snd (?fn (?qs ! i)) = Some x)
               \<or> (\<exists>c. e = Some (ContextErr c) \<and> ParentDone c \<in> set ?sched)"
    by blast+
  then have "e = Some (WorkErr ''boom'')" by auto
  with rs res r show ?thesis by blast
qed

text \<open>
  Claim C3 says that the dispatching goroutine acquires no token once it has seen the
  cancellation. The code does not do that: the \<open>break\<close> leaves the \<open>select\<close> only. In
  the schedule below the first sub-query fails, \<open>For\<close> returns the error and cancels
  the context, the dispatching goroutine takes the \<open>ctx.Done()\<close> case for index 1, and
  then takes a token and starts a goroutine for index 2.
\<close>

theorem For_supervisor_continues_after_cancel:
  "map_option (\<lambda>s. (For_result s, ctx_err s, sup_i s, workers s, chan_len (pool s)))
     (For_run [1, 2, 3 :: nat] (\<lambda>q. (q, if q = 1 then Some ''failed'' else None))
        [SupAcquire, Start 0, FnReturn 0, Deliver 0, DeferCancel, Release 0, SupDone, SupAcquire]
        (For_init \<lparr> parallelism = 1, locks = \<lparr> chan_cap = 1, chan_len = 1 \<rparr>, handler = () \<rparr> (0 :: nat) [1, 2, 3 :: nat]))
   = Some (Some (None, Some (WorkErr ''failed'')), Some Canceled, 3, [Finished, Idle, Spawned], 0)"
  by (simp add: For_init_def For_result_def chan_recv_def chan_send_def)

text \<open>
  Claim C4. For an instance that comes from \<open>Downstreamer\<close>, in every state that a
  schedule of \<open>For\<close> reaches, the number of goroutines inside the work function is at
  most the parallelism of the instance, for any number of sub-queries.
\<close>

theorem For_concurrency_bound:
  assumes "Downstreamer TenantID h ctx = Some inst"
    and "For_run queries fn sched (For_init inst zero queries) = Some s"
  shows "int (executing s) \<le> parallelism inst"
proof -
  have "executing s \<le> held s" by (rule executing_le_held)
  also have "held s \<le> chan_len (locks inst)"
    using tokens_invariant [OF assms(2)] by simp
  also have "chan_len (locks inst) = nat (parallelism inst)"
    using Downstreamer_pool(3) [OF assms(1)] .
  finally show ?thesis using Downstreamer_pool(1) [OF assms(1)] by simp
qed

theorem For_concurrency_bound_witness:
  "Downstreamer (\<lambda>ctx :: unit. (''tenant-a'', None :: unit option))
      \<lparr> limits = (\<lambda>ctx user. 2), next = () \<rparr> ()
     = Some \<lparr> parallelism = 2, locks = \<lparr> chan_cap = 2, chan_len = 2 \<rparr>, handler = () \<rparr>
   \<and> (\<exists>s. For_run [10, 20, 30 :: nat] (\<lambda>q. (q + 1, None :: unit option))
             [SupAcquire, SupAcquire, Start 1, Start 0]
             (For_init \<lparr> parallelism = 2, locks = \<lparr> chan_cap = 2, chan_len = 2 \<rparr>, handler = () \<rparr> (0 :: nat)
                [10, 20, 30 :: nat]) = Some s
          \<and> executing s = 2 \<and> int (executing s) \<le> 2
          \<and> For_step [10, 20, 30 :: nat] (\<lambda>q. (q + 1, None :: unit option)) SupAcquire s = None)"
proof -
  let ?inst = "\<lparr> parallelism = 2, locks = \<lparr> chan_cap = 2, chan_len = 2 \<rparr>, handler = () \<rparr>"
  let ?fn = "\<lambda>q :: nat. (q + 1, None :: unit option)"
  have d: "Downstreamer (\<lambda>ctx :: unit. (''tenant-a'', None :: unit option))
      \<lparr> limits = (\<lambda>ctx user. 2), next = () \<rparr> () = Some ?inst"
    by (simp add: Downstreamer_eq resolve_parallelism_def DefaultDownstreamConcurrency_def)
  have "\<exists>s. For_run [10, 20, 30 :: nat] ?fn [SupAcquire, SupAcquire, Start 1, Start 0]
             (For_init ?inst (0 :: nat) [10, 20, 30 :: nat]) = Some s \<and> executing s = 2
             \<and> For_step [10, 20, 30 :: nat] ?fn SupAcquire s = None"
    by (simp add: For_init_def chan_recv_def executing_def)
  then obtain s where r: "For_run [10, 20, 30 :: nat] ?fn [SupAcquire, SupAcquire, Start 1, Start 0]
             (For_init ?inst (0 :: nat) [10, 20, 30 :: nat]) = Some s" and e: "executing s = 2"
      "For_step [10, 20, 30 :: nat] ?fn SupAcquire s = None"
    by blast
  from For_concurrency_bound [OF d r] have "int (executing s) \<le> 2" by simp
  with d r e show ?thesis by blast
qed

text \<open>
  Claim C9. With no sub-query, no schedule of \<open>For\<close> acquires a token and the pool is
  left as it was; when \<open>For\<close> has returned, it has returned the empty list and no error;
  and from every state the calling goroutine returns within two steps of its own.
\<close>

theorem For_empty:
  assumes "For_run ([] :: 'q list) fn sched (For_init inst zero ([] :: 'q list)) = Some s"
  shows "SupAcquire \<notin> set sched \<and> pool s = locks inst
     \<and> (\<forall>r. For_result s = Some r \<longrightarrow> r = (Some [], None))
     \<and> (\<exists>rest s'. set rest \<subseteq> {CollReturn, DeferCancel} \<and> length rest \<le> 2
           \<and> For_run [] fn (sched @ rest) (For_init inst zero ([] :: 'q list)) = Some s'
           \<and> For_result s' = Some (Some [], None))"
proof -
  note inv = For_empty_invariant [OF assms]
  have res: "\<forall>r. For_result s = Some r \<longrightarrow> r = (Some [], None)"
    using inv by (auto simp: For_result_def)
  have "\<exists>rest s'. set rest \<subseteq> {CollReturn, DeferCancel} \<and> length rest \<le> 2
           \<and> For_run [] fn rest s = Some s' \<and> For_result s' = Some (Some [], None)"
  proof -
    consider "coll s = Collecting 0 []" | "coll s = Returning (Some []) None"
      | "coll s = Returned (Some []) None" using inv by blast
    then show ?thesis
    proof cases
      case 1
      then have "For_run [] fn [CollReturn, DeferCancel] s
          = Some (s\<lparr> coll := Returned (Some []) None,
                     ctx_err := (case ctx_err s of None \<Rightarrow> Some Canceled | Some c \<Rightarrow> Some c) \<rparr>)"
        by simp
      then show ?thesis
        by (intro exI [of _ "[CollReturn, DeferCancel]"] exI conjI) (auto simp: For_result_def)
    next
      case 2
      then have "For_run [] fn [DeferCancel] s
          = Some (s\<lparr> coll := Returned (Some []) None,
                     ctx_err := (case ctx_err s of None \<Rightarrow> Some Canceled | Some c \<Rightarrow> Some c) \<rparr>)"
        by simp
      then show ?thesis
        by (intro exI [of _ "[DeferCancel]"] exI conjI) (auto simp: For_result_def)
    next
      case 3
      then have "For_run [] fn [] s = Some s \<and> For_result s = Some (Some [], None)"
        by (simp add: For_result_def)
      then show ?thesis
        by (intro exI [of _ "[]"] exI [of _ s]) simp
    qed
  qed
  then obtain rest s' where "set rest \<subseteq> {CollReturn, DeferCancel}" "length rest \<le> 2"
    "For_run [] fn rest s = Some s'" "For_result s' = Some (Some [], None)" by blast
  then have "set rest \<subseteq> {CollReturn, DeferCancel} \<and> length rest \<le> 2
           \<and> For_run [] fn (sched @ rest) (For_init inst zero ([] :: 'q list)) = Some s'
           \<and> For_result s' = Some (Some [], None)"
    using assms by (simp add: For_run_append)
  then show ?thesis using inv res by blast
qed

theorem For_empty_witness:
  "\<exists>s. For_run ([] :: nat list) (\<lambda>q. (q, None :: unit option)) [ParentDone DeadlineExceeded, CollReturn, DeferCancel]
         (For_init \<lparr> parallelism = 1, locks = \<lparr> chan_cap = 1, chan_len = 1 \<rparr>, handler = () \<rparr> (0 :: nat) ([] :: nat list)) = Some s
       \<and> For_result s = Some (Some [], None)
       \<and> pool s = \<lparr> chan_cap = 1, chan_len = 1 \<rparr>"
proof -
  let ?init = "For_init \<lparr> parallelism = 1, locks = \<lparr> chan_cap = 1, chan_len = 1 \<rparr>, handler = () \<rparr> (0 :: nat) ([] :: nat list)
                 :: (nat, unit) For_state"
  let ?fn = "\<lambda>q :: nat. (q, None :: unit option)"
  have "\<exists>s. For_run [] ?fn [ParentDone DeadlineExceeded, CollReturn, DeferCancel] ?init = Some s
          \<and> For_result s \<noteq> None"
    by (simp add: For_init_def For_result_def)
  then obtain s where r: "For_run [] ?fn [ParentDone DeadlineExceeded, CollReturn, DeferCancel] ?init = Some s"
    and n: "For_result s \<noteq> None" by blast
  from For_empty [OF r] n have "For_result s = Some (Some [], None)"
    and "pool s = \<lparr> chan_cap = 1, chan_len = 1 \<rparr>"
    by (auto simp: For_init_def)
  with r show ?thesis by blast
qed

end
